theory Spec2Isabelle
  imports Complex_Main
begin

section \<open>Values shared by the whole notebook\<close>

text \<open>
  The notebook \<^verbatim>\<open>mnist-logistic-regression-classifier.ipynb\<close> works on numpy/Theano
  arrays of \<^verbatim>\<open>floatX\<close>. Finite floating-point numbers are idealised as \<^typ>\<open>real\<close>;
  rounding is not modelled. A matrix is the list of its rows.
\<close>

type_synonym vec = "real list"
type_synonym matrix = "real list list"

text \<open>A dataset split: the input matrix and the label vector (cast to \<^verbatim>\<open>int32\<close>).\<close>

type_synonym split = "matrix \<times> int list"

text \<open>The parameters held by a \<^verbatim>\<open>LogisticRegression\<close> object (its shared variables).\<close>

record classifier =
  W :: matrix
  b :: vec

text \<open>
  The special floating-point values that steer the control flow of the trainer:
  \<^verbatim>\<open>numpy.inf\<close> is the initial best validation loss, and \<^verbatim>\<open>numpy.mean([])\<close> is
  \<^verbatim>\<open>nan\<close>. Every comparison with \<^verbatim>\<open>nan\<close> is false.
\<close>

datatype fval = Fin real | PInf | NInf | NaN

fun flt :: "fval \<Rightarrow> fval \<Rightarrow> bool" where
  "flt NaN _ = False"
| "flt _ NaN = False"
| "flt (Fin x) (Fin y) = (x < y)"
| "flt (Fin _) PInf = True"
| "flt (Fin _) NInf = False"
| "flt PInf _ = False"
| "flt NInf NInf = False"
| "flt NInf _ = True"

text \<open>\<^verbatim>\<open>c * v\<close> and \<^verbatim>\<open>c - v\<close> for a finite constant \<^verbatim>\<open>c\<close>.\<close>

fun fscale :: "real \<Rightarrow> fval \<Rightarrow> fval" where
  "fscale c (Fin x) = Fin (c * x)"
| "fscale c PInf = (if 0 < c then PInf else if c < 0 then NInf else NaN)"
| "fscale c NInf = (if 0 < c then NInf else if c < 0 then PInf else NaN)"
| "fscale c NaN = NaN"

fun fminus_from :: "real \<Rightarrow> fval \<Rightarrow> fval" where
  "fminus_from c (Fin x) = Fin (c - x)"
| "fminus_from c PInf = NInf"
| "fminus_from c NInf = PInf"
| "fminus_from c NaN = NaN"

text \<open>\<^verbatim>\<open>numpy.mean\<close> of a Python list of finite floats.\<close>

definition numpy_mean :: "real list \<Rightarrow> fval" where
  "numpy_mean xs = (if xs = [] then NaN else Fin (sum_list xs / real (length xs)))"

datatype py_error =
    ValueError string
  | OSError
  | UnpicklingError
  | TypeError
  | ZeroDivisionError
  | IndexError
  | AttributeError

section \<open>Files\<close>

text \<open>
  What \<^verbatim>\<open>pickle.load\<close> can find in a file of this program: the MNIST 3-tuple of splits,
  the custom dataset (one pair), or a pickled classifier. A file is either a plain
  pickle or a gzip-compressed one. \<^verbatim>\<open>pickle.dump\<close> followed by \<^verbatim>\<open>pickle.load\<close> is taken
  to give back the object (the library's contract), so a file holds the object itself.
\<close>

datatype pyobj = Splits split split split | Single split | Model classifier

datatype stored_file = Pickle pyobj | GzPickle pyobj

text \<open>
  The operating system as the program sees it: \<^verbatim>\<open>os.path.split\<close> (which depends on the
  platform) and the regular files that exist, by path.
\<close>

record os_env =
  path_split :: "string \<Rightarrow> string \<times> string"
  files :: "string \<rightharpoonup> stored_file"

definition isfile :: "os_env \<Rightarrow> string \<Rightarrow> bool" where
  "isfile os p = (files os p \<noteq> None)"

text \<open>
  \<^verbatim>\<open>posixpath.split\<close>: everything after the last slash is the tail; trailing slashes
  are stripped from the head unless it consists of slashes only.
\<close>

definition rstrip_slash :: "string \<Rightarrow> string" where
  "rstrip_slash s = rev (dropWhile (\<lambda>c. c = CHR ''/'') (rev s))"

definition posixpath_split :: "string \<Rightarrow> string \<times> string" where
  "posixpath_split p =
     (let tail = rev (takeWhile (\<lambda>c. c \<noteq> CHR ''/'') (rev p));
          head = rev (dropWhile (\<lambda>c. c \<noteq> CHR ''/'') (rev p))
      in if head \<noteq> [] \<and> head \<noteq> replicate (length head) (CHR ''/'')
         then (rstrip_slash head, tail) else (head, tail))"

text \<open>\<^verbatim>\<open>gzip.open(path, 'rb')\<close> followed by \<^verbatim>\<open>pickle.load\<close>.\<close>

definition gzip_pickle_load :: "os_env \<Rightarrow> string \<Rightarrow> py_error + pyobj" where
  "gzip_pickle_load os p =
     (case files os p of
        None \<Rightarrow> Inl OSError
      | Some (Pickle _) \<Rightarrow> Inl OSError
      | Some (GzPickle obj) \<Rightarrow> Inr obj)"

text \<open>\<^verbatim>\<open>open(path, 'rb')\<close> followed by \<^verbatim>\<open>pickle.load\<close>.\<close>

definition pickle_load :: "os_env \<Rightarrow> string \<Rightarrow> py_error + pyobj" where
  "pickle_load os p =
     (case files os p of
        None \<Rightarrow> Inl OSError
      | Some (GzPickle _) \<Rightarrow> Inl UnpicklingError
      | Some (Pickle obj) \<Rightarrow> Inr obj)"

text \<open>
  \<^verbatim>\<open>open(path, 'wb')\<close> followed by \<^verbatim>\<open>pickle.dump\<close>: the file is replaced. The
  directory of the path is taken to exist, so that the write succeeds.
\<close>

definition pickle_dump :: "os_env \<Rightarrow> string \<Rightarrow> pyobj \<Rightarrow> os_env" where
  "pickle_dump os p obj = os\<lparr>files := (files os)(p \<mapsto> Pickle obj)\<rparr>"

section \<open>\<^verbatim>\<open>load_data\<close>\<close>

text \<open>
  The result is the list of lines printed so far and either the error raised or the
  three splits (train, validate, test). The only \<^verbatim>\<open>raise\<close> statement of the notebook
  is the one guarded here; unpacking a pickle that is not a 3-tuple fails in the
  assignment itself. The labels are handed on as integers: their cast through
  \<^verbatim>\<open>floatX\<close> to \<^verbatim>\<open>int32\<close> is not modelled.
\<close>

definition load_data :: "os_env \<Rightarrow> string \<Rightarrow> string list \<times> (py_error + split \<times> split \<times> split)" where
  "load_data os dataset =
     (let (data_dir, data_file) = path_split os dataset in
      if data_dir = [] \<and> \<not> isfile os dataset
      then ([], Inl (ValueError ''Incorrect dataset path''))
      else
        (case gzip_pickle_load os dataset of
           Inl e \<Rightarrow> ([''... loading data''], Inl e)
         | Inr (Splits train_set validate_set test_set) \<Rightarrow>
             ([''... loading data''], Inr (train_set, validate_set, test_set))
         | Inr (Single _) \<Rightarrow> ([''... loading data''], Inl (ValueError ''not enough values to unpack''))
         | Inr (Model _) \<Rightarrow> ([''... loading data''], Inl TypeError)))"

section \<open>Batches\<close>

text \<open>\<^verbatim>\<open>range(n)\<close> for a Python integer: empty when \<open>n \<le> 0\<close>.\<close>

definition py_range :: "int \<Rightarrow> int list" where
  "py_range n = map int [0..<nat n]"

text \<open>
  \<^verbatim>\<open>xs[start:stop]\<close> on an array or list: a negative bound counts from the end, and both
  bounds are clipped to the length.
\<close>

definition slice_bound :: "nat \<Rightarrow> int \<Rightarrow> nat" where
  "slice_bound n i = (if i < 0 then nat (max (i + int n) 0) else min (nat i) n)"

definition py_slice :: "'a list \<Rightarrow> int \<Rightarrow> int \<Rightarrow> 'a list" where
  "py_slice xs start stop =
     (let lo = slice_bound (length xs) start; hi = slice_bound (length xs) stop
      in take (hi - lo) (drop lo xs))"

text \<open>
  The \<^verbatim>\<open>givens\<close> helper of \<^verbatim>\<open>msgd_optimization_mnist\<close>: the rows and labels that stand
  for \<^verbatim>\<open>x\<close> and \<^verbatim>\<open>y\<close> when a compiled function is called with batch number \<^verbatim>\<open>index\<close>.
\<close>

definition givens :: "int \<Rightarrow> split \<Rightarrow> int \<Rightarrow> split" where
  "givens batch_size dataset index =
     (py_slice (fst dataset) (index * batch_size) ((index + 1) * batch_size),
      py_slice (snd dataset) (index * batch_size) ((index + 1) * batch_size))"

text \<open>\<^verbatim>\<open>set_x.get_value(borrow=True).shape[0] // batch_size\<close>.\<close>

definition n_batches :: "split \<Rightarrow> int \<Rightarrow> py_error + int" where
  "n_batches dataset batch_size =
     (if batch_size = 0 then Inl ZeroDivisionError
      else Inr (int (length (fst dataset)) div batch_size))"

section \<open>The class \<^verbatim>\<open>LogisticRegression\<close>\<close>

text \<open>
  \<^verbatim>\<open>__init__\<close> creates the shared variables \<^verbatim>\<open>W\<close> (\<open>n_in \<times> n_out\<close>) and \<^verbatim>\<open>b\<close>
  (\<open>n_out\<close>), both zero. The symbolic input \<^verbatim>\<open>x\<close> is an argument of the functions
  below. A matrix without rows carries no column count in this representation.
\<close>

definition LogisticRegression_init :: "nat \<Rightarrow> nat \<Rightarrow> classifier" where
  "LogisticRegression_init n_in n_out =
     \<lparr>W = replicate n_in (replicate n_out 0), b = replicate n_out 0\<rparr>"

definition n_cols :: "matrix \<Rightarrow> nat" where
  "n_cols m = (case m of [] \<Rightarrow> 0 | r # _ \<Rightarrow> length r)"

definition column :: "nat \<Rightarrow> matrix \<Rightarrow> vec" where
  "column j m = map (\<lambda>row. row ! j) m"

text \<open>One row of \<^verbatim>\<open>T.dot(x, W)\<close>.\<close>

definition dot_row :: "vec \<Rightarrow> matrix \<Rightarrow> vec" where
  "dot_row r w = map (\<lambda>j. sum_list (map2 (*) r (column j w))) [0..<n_cols w]"

text \<open>
  \<^verbatim>\<open>T.dot(x, self.W) + self.b\<close>: the inner dimensions must agree and the bias is added
  to every row; a shape mismatch is a \<^verbatim>\<open>ValueError\<close> when the function is run.
\<close>

definition logits :: "classifier \<Rightarrow> matrix \<Rightarrow> py_error + matrix" where
  "logits c x =
     (if (\<forall>r\<in>set x. length r = length (W c)) \<and> length (b c) = n_cols (W c)
      then Inr (map (\<lambda>r. map2 (+) (dot_row r (W c)) (b c)) x)
      else Inl (ValueError ''shape mismatch''))"

text \<open>\<^verbatim>\<open>T.nnet.softmax\<close> of one row.\<close>

definition softmax :: "vec \<Rightarrow> vec" where
  "softmax r = map (\<lambda>v. exp v / sum_list (map exp r)) r"

definition p_y_given_x :: "classifier \<Rightarrow> matrix \<Rightarrow> py_error + matrix" where
  "p_y_given_x c x =
     (case logits c x of Inl e \<Rightarrow> Inl e | Inr z \<Rightarrow> Inr (map softmax z))"

text \<open>
  \<^verbatim>\<open>argmax\<close> of a non-empty row: the index of the first largest entry. The arguments
  are the best index and value so far, the index of the next entry and the entries left.
\<close>

fun argmax_from :: "nat \<Rightarrow> real \<Rightarrow> nat \<Rightarrow> real list \<Rightarrow> nat" where
  "argmax_from best v i [] = best"
| "argmax_from best v i (u # us) =
     (if v < u then argmax_from i u (Suc i) us else argmax_from best v (Suc i) us)"

definition argmax :: "vec \<Rightarrow> nat" where
  "argmax r = (case r of [] \<Rightarrow> 0 | v # vs \<Rightarrow> argmax_from 0 v 1 vs)"

text \<open>\<^verbatim>\<open>T.argmax(self.p_y_given_x, axis=1)\<close>; a row without entries has no argmax.\<close>

definition y_pred :: "classifier \<Rightarrow> matrix \<Rightarrow> py_error + int list" where
  "y_pred c x =
     (case p_y_given_x c x of
        Inl e \<Rightarrow> Inl e
      | Inr p \<Rightarrow> if [] \<in> set p then Inl (ValueError ''argmax of an empty sequence'')
                 else Inr (map (\<lambda>r. int (argmax r)) p))"

text \<open>\<^verbatim>\<open>xs[i]\<close> for a Python integer: negative indices count from the end.\<close>

definition py_index :: "'a list \<Rightarrow> int \<Rightarrow> py_error + 'a" where
  "py_index xs i =
     (let n = int (length xs); j = (if i < 0 then i + n else i)
      in if 0 \<le> j \<and> j < n then Inr (xs ! nat j) else Inl IndexError)"

text \<open>
  The entry of a row of log-probabilities for a label. The compiled graph checks every
  label against the number of classes: a label below zero or not below the length of
  the row is a \<^verbatim>\<open>ValueError\<close>.
\<close>

definition label_entry :: "vec \<Rightarrow> int \<Rightarrow> py_error + real" where
  "label_entry row j =
     (if 0 \<le> j \<and> j < int (length row) then Inr (row ! nat j)
      else Inl (ValueError ''y_i value out of bounds''))"

text \<open>
  \<^verbatim>\<open>m[rows, cols]\<close> with two index vectors of the same length, the second one the
  labels: the entries \<^verbatim>\<open>m[rows[k], cols[k]]\<close>, in order.
\<close>

fun pick :: "matrix \<Rightarrow> int list \<Rightarrow> int list \<Rightarrow> py_error + vec" where
  "pick m (i # is) (j # js) =
     (case py_index m i of
        Inl e \<Rightarrow> Inl e
      | Inr row \<Rightarrow>
          (case label_entry row j of
             Inl e \<Rightarrow> Inl e
           | Inr v \<Rightarrow> (case pick m is js of Inl e \<Rightarrow> Inl e | Inr vs \<Rightarrow> Inr (v # vs))))"
| "pick m _ _ = Inr []"

text \<open>\<^verbatim>\<open>-T.mean(T.log(self.p_y_given_x)[T.arange(y.shape[0]), y])\<close>\<close>

definition negative_log_likelihood :: "classifier \<Rightarrow> matrix \<Rightarrow> int list \<Rightarrow> py_error + fval" where
  "negative_log_likelihood c x y =
     (case p_y_given_x c x of
        Inl e \<Rightarrow> Inl e
      | Inr p \<Rightarrow>
          (case pick (map (map ln) p) (py_range (int (length y))) y of
             Inl e \<Rightarrow> Inl e
           | Inr picked \<Rightarrow> Inr (fscale (- 1) (numpy_mean picked))))"

text \<open>
  \<^verbatim>\<open>T.mean(T.neq(self.y_pred, y))\<close>: the two vectors are compared entry by entry and must
  have the same length.
\<close>

definition neq :: "int \<Rightarrow> int \<Rightarrow> real" where
  "neq p t = (if p \<noteq> t then 1 else 0)"

definition errors :: "classifier \<Rightarrow> matrix \<Rightarrow> int list \<Rightarrow> py_error + fval" where
  "errors c x y =
     (case y_pred c x of
        Inl e \<Rightarrow> Inl e
      | Inr pred \<Rightarrow>
          if length pred \<noteq> length y then Inl (ValueError ''shape mismatch'')
          else Inr (numpy_mean (map2 neq pred y)))"

section \<open>\<^verbatim>\<open>predict\<close>\<close>

text \<open>
  \<^verbatim>\<open>predict\<close> opens the file for reading, unpickles the classifier and runs its
  \<^verbatim>\<open>y_pred\<close> on the input. It writes nothing, so its model returns only the result.
\<close>

definition predict :: "os_env \<Rightarrow> string \<Rightarrow> matrix \<Rightarrow> py_error + int list" where
  "predict os saved_model x =
     (case pickle_load os saved_model of
        Inl e \<Rightarrow> Inl e
      | Inr (Model classifier) \<Rightarrow> y_pred classifier x
      | Inr _ \<Rightarrow> Inl AttributeError)"

section \<open>The training loop of \<^verbatim>\<open>msgd_optimization_mnist\<close>\<close>

definition DATASET :: string where
  "DATASET = ''E:/ml/datasets/mnist.pkl.gz''"

definition SAVED_MODEL :: string where
  "SAVED_MODEL = ''E:/ml/mnist/my_best_model.pkl''"

text \<open>
  What the loop reads and never changes: the epoch limit, the batch counts, the
  validation frequency and the three functions compiled by \<^verbatim>\<open>theano.function\<close>
  (\<^verbatim>\<open>train_model\<close> updates the parameters; the cost it returns is not used). The
  compiled functions are taken to return: an exception raised inside one of them is
  not modelled.
\<close>

record msgd_env =
  n_epochs :: int
  n_train_batches :: int
  n_validate_batches :: int
  n_test_batches :: int
  validation_freq :: int
  train_model :: "int \<Rightarrow> classifier \<Rightarrow> classifier"
  validate_model :: "int \<Rightarrow> classifier \<Rightarrow> real"
  test_model :: "int \<Rightarrow> classifier \<Rightarrow> real"

text \<open>The lines the trainer prints; the numbers are kept as numbers.\<close>

datatype line =
    Text string
  | ValidationLine int int int fval
  | TestLine int int int fval
  | Summary fval fval

fun is_validation_line :: "line \<Rightarrow> bool" where
  "is_validation_line (ValidationLine _ _ _ _) = True"
| "is_validation_line _ = False"

fun is_test_line :: "line \<Rightarrow> bool" where
  "is_test_line (TestLine _ _ _ _) = True"
| "is_test_line _ = False"

text \<open>
  The calls the trainer makes, in the order it makes them: a compiled function called
  with a batch index, or the classifier pickled to a path.
\<close>

datatype call = TrainCall int | ValidateCall int | TestCall int | DumpCall string

text \<open>The batch indices of the calls of \<^verbatim>\<open>validate_model\<close> and \<^verbatim>\<open>test_model\<close> in a log.\<close>

fun validate_calls :: "call list \<Rightarrow> int list" where
  "validate_calls [] = []"
| "validate_calls (ValidateCall i # cs) = i # validate_calls cs"
| "validate_calls (_ # cs) = validate_calls cs"

fun test_calls :: "call list \<Rightarrow> int list" where
  "test_calls [] = []"
| "test_calls (TestCall i # cs) = i # test_calls cs"
| "test_calls (_ # cs) = test_calls cs"

text \<open>
  One entry per executed training step, kept for stating properties of a whole run;
  the program itself does not read it. It records the epoch, the batch index, the
  global index \<^verbatim>\<open>iter_no\<close>, the calls made during the step, the batch indices given to
  \<^verbatim>\<open>validate_model\<close> and \<^verbatim>\<open>test_model\<close> at this step (if the validation line, the test
  line was printed), whether the classifier was pickled, the value of \<^verbatim>\<open>patience\<close> when
  the early-exit test is made, and whether the loop was left.
\<close>

record step_info =
  at_epoch :: int
  at_minibatch :: int
  at_iter :: int
  calls_made :: "call list"
  validated :: "int list option"
  tested :: "int list option"
  persisted :: bool
  patience_after :: int
  stopped :: bool

text \<open>
  The variables the loop changes, the files, the output and the log of the calls made
  so far.
\<close>

record msgd_state =
  params :: classifier
  patience :: int
  best_validation_loss :: fval
  test_score :: fval
  done_looping :: bool
  epoch :: int
  disk :: os_env
  printed :: "line list"
  calls :: "call list"
  trace :: "step_info list"

definition patience_mult :: int where
  "patience_mult = 2"

definition improvement_thresh :: real where
  "improvement_thresh = 0.995"

text \<open>
  \<^verbatim>\<open>[f(i) for i in indices]\<close> for a compiled function \<open>f\<close> that reads the parameters:
  the calls are made one after the other and each is logged when it is made.
\<close>

fun call_each ::
  "(int \<Rightarrow> classifier \<Rightarrow> real) \<Rightarrow> (int \<Rightarrow> call) \<Rightarrow> int list \<Rightarrow> msgd_state
     \<Rightarrow> real list \<times> msgd_state" where
  "call_each f tag [] s = ([], s)"
| "call_each f tag (i # rest) s =
     (let r = f i (params s);
          (rs, s') = call_each f tag rest (s\<lparr>calls := calls s @ [tag i]\<rparr>)
      in (r # rs, s'))"

text \<open>
  The block under \<^verbatim>\<open>if validation_loss < best_validation_loss:\<close>: the patience
  update, the new best value, the test pass, the test line and the pickle. Whether the
  margin and the improvement are met is decided on real numbers here; the code decides
  on rounded doubles. Writing the file is taken to succeed.
\<close>

definition new_best :: "msgd_env \<Rightarrow> int \<Rightarrow> int \<Rightarrow> fval \<Rightarrow> msgd_state \<Rightarrow> msgd_state" where
  "new_best env minibatch_index iter_no validation_loss s =
     (let s1 = (if flt validation_loss (fscale improvement_thresh (best_validation_loss s))
                then s\<lparr>patience := max (patience s) (iter_no * patience_mult)\<rparr>
                else s);
          s2 = s1\<lparr>best_validation_loss := validation_loss\<rparr>;
          (test_losses, s2') = call_each (test_model env) TestCall
                                 (py_range (n_test_batches env)) s2;
          s3 = s2'\<lparr>test_score := fminus_from 1 (numpy_mean test_losses)\<rparr>;
          s4 = s3\<lparr>printed := printed s3 @
                 [TestLine (epoch s3) (minibatch_index + 1) (n_train_batches env)
                    (fscale 100 (test_score s3))]\<rparr>
      in s4\<lparr>disk := pickle_dump (disk s4) SAVED_MODEL (Model (params s4)),
             calls := calls s4 @ [DumpCall SAVED_MODEL]\<rparr>)"

text \<open>The block under \<^verbatim>\<open>if (iter_no + 1) % validation_freq == 0:\<close>.\<close>

definition validation_check :: "msgd_env \<Rightarrow> int \<Rightarrow> int \<Rightarrow> msgd_state \<Rightarrow> msgd_state" where
  "validation_check env minibatch_index iter_no s =
     (let (validation_losses, s0) = call_each (validate_model env) ValidateCall
                                      (py_range (n_validate_batches env)) s;
          validation_loss = numpy_mean validation_losses;
          s1 = s0\<lparr>printed := printed s0 @
                 [ValidationLine (epoch s0) (minibatch_index + 1) (n_train_batches env)
                    (fscale 100 validation_loss)]\<rparr>
      in if flt validation_loss (best_validation_loss s1)
         then new_best env minibatch_index iter_no validation_loss s1
         else s1)"

text \<open>
  The body of \<^verbatim>\<open>for minibatch_index in range(n_train_batches)\<close>. The second component
  of the result is true when the body ends in \<^verbatim>\<open>break\<close>. The \<^verbatim>\<open>%\<close> raises
  \<^verbatim>\<open>ZeroDivisionError\<close> when the validation frequency is zero. The entry added to the
  trace is read off what the step did: the calls it added to the log and the lines it
  printed.
\<close>

definition train_step :: "msgd_env \<Rightarrow> int \<Rightarrow> msgd_state \<Rightarrow> py_error + msgd_state \<times> bool" where
  "train_step env minibatch_index s =
     (let s1 = s\<lparr>params := train_model env minibatch_index (params s),
                  calls := calls s @ [TrainCall minibatch_index]\<rparr>;
          iter_no = (epoch s1 - 1) * n_train_batches env + minibatch_index
      in if validation_freq env = 0 then Inl ZeroDivisionError
         else
           let s2 = (if (iter_no + 1) mod validation_freq env = 0
                     then validation_check env minibatch_index iter_no s1 else s1);
               leave = (iter_no \<ge> patience s2);
               new_calls = drop (length (calls s)) (calls s2);
               new_lines = drop (length (printed s)) (printed s2);
               info = \<lparr>at_epoch = epoch s2, at_minibatch = minibatch_index, at_iter = iter_no,
                       calls_made = new_calls,
                       validated = (if list_ex is_validation_line new_lines
                                    then Some (validate_calls new_calls) else None),
                       tested = (if list_ex is_test_line new_lines
                                 then Some (test_calls new_calls) else None),
                       persisted = (DumpCall SAVED_MODEL \<in> set new_calls),
                       patience_after = patience s2, stopped = leave\<rparr>;
               s3 = s2\<lparr>trace := trace s2 @ [info]\<rparr>
           in if leave then Inr (s3\<lparr>done_looping := True\<rparr>, True) else Inr (s3, False))"

text \<open>The \<^verbatim>\<open>for\<close> loop over the batch indices still to come, left early by \<^verbatim>\<open>break\<close>.\<close>

fun for_loop :: "msgd_env \<Rightarrow> int list \<Rightarrow> msgd_state \<Rightarrow> py_error + msgd_state" where
  "for_loop env [] s = Inr s"
| "for_loop env (minibatch_index # rest) s =
     (case train_step env minibatch_index s of
        Inl e \<Rightarrow> Inl e
      | Inr (s', leave) \<Rightarrow> if leave then Inr s' else for_loop env rest s')"

lemma call_each_eq:
  "call_each f tag is s = (map (\<lambda>i. f i (params s)) is, s\<lparr>calls := calls s @ map tag is\<rparr>)"
  by (induction "is" arbitrary: s) simp_all

lemma train_step_epoch: "train_step env i s = Inr (s', l) \<Longrightarrow> epoch s' = epoch s"
  by (auto simp: train_step_def validation_check_def new_best_def call_each_eq Let_def
      split: if_splits prod.splits)

lemma for_loop_epoch: "for_loop env is s = Inr s' \<Longrightarrow> epoch s' = epoch s"
proof (induction "is" arbitrary: s)
  case Nil
  then show ?case by simp
next
  case (Cons i rest)
  then show ?case
    by (auto split: sum.splits prod.splits if_splits dest: train_step_epoch)
qed

text \<open>\<^verbatim>\<open>while (epoch < n_epochs) and (not done_looping):\<close>\<close>

function while_loop :: "msgd_env \<Rightarrow> msgd_state \<Rightarrow> py_error + msgd_state" where
  "while_loop env s =
     (if epoch s < n_epochs env \<and> \<not> done_looping s
      then (case for_loop env (py_range (n_train_batches env)) (s\<lparr>epoch := epoch s + 1\<rparr>) of
              Inl e \<Rightarrow> Inl e
            | Inr s' \<Rightarrow> while_loop env s')
      else Inr s)"
  by pat_completeness auto
termination
proof (relation "measure (\<lambda>(env, s). nat (n_epochs env - epoch s))")
  show "wf (measure (\<lambda>(env, s). nat (n_epochs env - epoch s)))" by simp
next
  fix env :: msgd_env and s s' :: msgd_state
  assume "epoch s < n_epochs env \<and> \<not> done_looping s"
    and "for_loop env (py_range (n_train_batches env)) (s\<lparr>epoch := epoch s + 1\<rparr>) = Inr s'"
  then show "((env, s'), (env, s)) \<in> measure (\<lambda>(env, s). nat (n_epochs env - epoch s))"
    using for_loop_epoch by fastforce
qed

declare while_loop.simps [simp del]

text \<open>
  The section ``Train model'': the initial values, the loop and the summary line. The
  two lines that report the running time depend on the clock and are left out.
\<close>

definition initial_patience :: int where
  "initial_patience = 5000"

text \<open>
  The values fixed before the loop starts; the validation frequency is computed from
  the initial value of \<^verbatim>\<open>patience\<close>.
\<close>

definition loop_env ::
  "int \<Rightarrow> int \<Rightarrow> int \<Rightarrow> int \<Rightarrow> (int \<Rightarrow> classifier \<Rightarrow> classifier) \<Rightarrow> (int \<Rightarrow> classifier \<Rightarrow> real)
     \<Rightarrow> (int \<Rightarrow> classifier \<Rightarrow> real) \<Rightarrow> msgd_env" where
  "loop_env epochs n_train n_validate n_test train validate test =
     \<lparr>n_epochs = epochs, n_train_batches = n_train,
      n_validate_batches = n_validate, n_test_batches = n_test,
      validation_freq = min n_train (initial_patience div 2),
      train_model = train, validate_model = validate, test_model = test\<rparr>"

definition train_the_model ::
  "int \<Rightarrow> int \<Rightarrow> int \<Rightarrow> int \<Rightarrow> (int \<Rightarrow> classifier \<Rightarrow> classifier) \<Rightarrow> (int \<Rightarrow> classifier \<Rightarrow> real)
     \<Rightarrow> (int \<Rightarrow> classifier \<Rightarrow> real) \<Rightarrow> classifier \<Rightarrow> os_env \<Rightarrow> line list
     \<Rightarrow> py_error + msgd_state" where
  "train_the_model epochs n_train n_validate n_test train validate test clf files0 out =
     (let env = loop_env epochs n_train n_validate n_test train validate test;
          s0 = \<lparr>params = clf, patience = initial_patience, best_validation_loss = PInf,
                test_score = Fin 0, done_looping = False, epoch = 0, disk = files0,
                printed = out @ [Text ''... training the model''], calls = [], trace = []\<rparr>
      in case while_loop env s0 of
           Inl e \<Rightarrow> Inl e
         | Inr s \<Rightarrow> Inr (s\<lparr>printed := printed s @
             [Summary (fscale 100 (best_validation_loss s)) (fscale 100 (test_score s))]\<rparr>))"

section \<open>\<^verbatim>\<open>msgd_optimization_mnist\<close>\<close>

text \<open>
  The whole function. \<^verbatim>\<open>theano.function\<close> compiles the update step and the error
  count; the two compiled graphs are arguments here: \<open>compiled_train\<close> takes the learning
  rate and the batch that stands for \<^verbatim>\<open>x\<close> and \<^verbatim>\<open>y\<close> and updates the parameters,
  \<open>compiled_errors\<close> gives the error rate of the classifier on a batch. The result is the
  final state, or the error that ended the run.
\<close>

definition msgd_optimization_mnist ::
  "(real \<Rightarrow> split \<Rightarrow> classifier \<Rightarrow> classifier) \<Rightarrow> (split \<Rightarrow> classifier \<Rightarrow> real)
     \<Rightarrow> os_env \<Rightarrow> real \<Rightarrow> int \<Rightarrow> string \<Rightarrow> int \<Rightarrow> py_error + msgd_state" where
  "msgd_optimization_mnist compiled_train compiled_errors os learning_rate epochs dataset batch_size =
     (case load_data os dataset of
        (out, Inl e) \<Rightarrow> Inl e
      | (out, Inr (train_set, validate_set, test_set)) \<Rightarrow>
          (case n_batches train_set batch_size of
             Inl e \<Rightarrow> Inl e
           | Inr n_train \<Rightarrow>
          (case n_batches validate_set batch_size of
             Inl e \<Rightarrow> Inl e
           | Inr n_validate \<Rightarrow>
          (case n_batches test_set batch_size of
             Inl e \<Rightarrow> Inl e
           | Inr n_test \<Rightarrow>
               train_the_model epochs n_train n_validate n_test
                 (\<lambda>index. compiled_train learning_rate (givens batch_size train_set index))
                 (\<lambda>index. compiled_errors (givens batch_size validate_set index))
                 (\<lambda>index. compiled_errors (givens batch_size test_set index))
                 (LogisticRegression_init (28 * 28) 10) os
                 (map Text out @ [Text ''... building the model''])))))"

section \<open>The model as the specification words it\<close>

text \<open>
  The forward computation of section 4.1 of the specification, entry by entry:
  \<open>logits = X \<cdot> W + b\<close>, \<open>probs = softmax(logits)\<close> row-wise, the prediction is the
  argmax of a row (the first index among equal largest entries), the loss is the mean
  over the rows of \<open>- log (probs[row, label[row]])\<close> and the error is the fraction of
  rows whose prediction differs from the label.
\<close>

definition spec_logits :: "matrix \<Rightarrow> matrix \<Rightarrow> vec \<Rightarrow> nat \<Rightarrow> nat \<Rightarrow> real" where
  "spec_logits X Wm bv i j = (\<Sum>k<length Wm. X ! i ! k * Wm ! k ! j) + bv ! j"

definition spec_probs :: "matrix \<Rightarrow> matrix \<Rightarrow> vec \<Rightarrow> nat \<Rightarrow> nat \<Rightarrow> real" where
  "spec_probs X Wm bv i j =
     exp (spec_logits X Wm bv i j) / (\<Sum>j'<length bv. exp (spec_logits X Wm bv i j'))"

definition spec_argmax :: "(nat \<Rightarrow> real) \<Rightarrow> nat \<Rightarrow> nat \<Rightarrow> bool" where
  "spec_argmax f n j \<longleftrightarrow> j < n \<and> (\<forall>j'<n. f j' \<le> f j) \<and> (\<forall>j'<j. f j' < f j)"

definition spec_loss :: "matrix \<Rightarrow> matrix \<Rightarrow> vec \<Rightarrow> int list \<Rightarrow> real" where
  "spec_loss X Wm bv y =
     (\<Sum>i<length X. - ln (spec_probs X Wm bv i (nat (y ! i)))) / real (length X)"

definition spec_error_rate :: "int list \<Rightarrow> int list \<Rightarrow> real" where
  "spec_error_rate preds y =
     real (card {i. i < length preds \<and> preds ! i \<noteq> y ! i}) / real (length preds)"

section \<open>Invariants of the training loop\<close>

text \<open>
  What holds of the recorded steps at every moment of a run: the \<open>k\<close>-th recorded step
  has global index \<open>k\<close>, it left the loop exactly when its index had reached
  \<^verbatim>\<open>patience\<close>, no step was run beyond \<^verbatim>\<open>patience\<close>, a step that left the loop is the
  last one, and the validation pass was made exactly when \<open>k + 1\<close> is a multiple of the
  validation frequency; the log of calls consists of the calls of the recorded steps.
\<close>

definition trace_inv :: "msgd_env \<Rightarrow> msgd_state \<Rightarrow> bool" where
  "trace_inv env s \<longleftrightarrow>
     (\<forall>k<length (trace s).
        at_iter (trace s ! k) = int k
        \<and> stopped (trace s ! k) = (patience_after (trace s ! k) \<le> int k)
        \<and> int k \<le> patience_after (trace s ! k)
        \<and> patience_after (trace s ! k) \<le> patience s
        \<and> (stopped (trace s ! k) \<longrightarrow> Suc k = length (trace s))
        \<and> validate_calls (calls_made (trace s ! k)) =
            (if (int k + 1) mod validation_freq env = 0
             then py_range (n_validate_batches env) else [])
        \<and> validated (trace s ! k) =
            (if (int k + 1) mod validation_freq env = 0
             then Some (py_range (n_validate_batches env)) else None))
     \<and> calls s = concat (map calls_made (trace s))
     \<and> (done_looping s \<longleftrightarrow> (\<exists>k<length (trace s). stopped (trace s ! k)))
     \<and> (\<not> done_looping s \<longrightarrow> int (length (trace s)) \<le> patience s)"

text \<open>The invariant of the \<^verbatim>\<open>while\<close> loop: full epochs until the loop is left.\<close>

definition run_inv :: "msgd_env \<Rightarrow> msgd_state \<Rightarrow> bool" where
  "run_inv env s \<longleftrightarrow>
     trace_inv env s \<and> 0 \<le> epoch s \<and> epoch s \<le> max 0 (n_epochs env)
     \<and> int (length (trace s)) \<le> epoch s * max 0 (n_train_batches env)
     \<and> (\<not> done_looping s \<longrightarrow>
          int (length (trace s)) = epoch s * max 0 (n_train_batches env))"

text \<open>
  The recorded values of \<^verbatim>\<open>patience\<close> never decrease, start at the initial value and
  stay below the current value.
\<close>

definition patience_inv :: "msgd_state \<Rightarrow> bool" where
  "patience_inv s \<longleftrightarrow>
     sorted (map patience_after (trace s))
     \<and> (\<forall>k<length (trace s). initial_patience \<le> patience_after (trace s ! k)
            \<and> patience_after (trace s ! k) \<le> patience s)
     \<and> initial_patience \<le> patience s"

section \<open>Concrete inputs used in the examples\<close>

text \<open>
  A checkpoint in the second epoch of a run with 3000 training batches: the step with
  batch index 1999 has global index 4999, the best validation loss so far is 0.5 and
  the two validation batches give 0.1 and 0.3.
\<close>

definition checkpoint_env :: msgd_env where
  "checkpoint_env = \<lparr>n_epochs = 3, n_train_batches = 3000, n_validate_batches = 2,
     n_test_batches = 1, validation_freq = 2500, train_model = (\<lambda>i c. c),
     validate_model = (\<lambda>i c. if i = 0 then 1/10 else 3/10),
     test_model = (\<lambda>i c. 1/4)\<rparr>"

definition checkpoint_state :: msgd_state where
  "checkpoint_state = \<lparr>params = \<lparr>W = [], b = []\<rparr>, patience = 5000,
     best_validation_loss = Fin (1/2), test_score = Fin 0, done_looping = False, epoch = 2,
     disk = \<lparr>path_split = posixpath_split, files = Map.empty\<rparr>,
     printed = [], calls = [], trace = []\<rparr>"

text \<open>
  A run of two epochs over two training batches, one validation batch and one test
  batch; training leaves the parameters as they are, every validation batch has error
  0.1 and every test batch has error 0.25.
\<close>

definition small_run :: "py_error + msgd_state" where
  "small_run = train_the_model 2 2 1 1 (\<lambda>i c. c) (\<lambda>i c. 1/10) (\<lambda>i c. 1/4)
     \<lparr>W = [], b = []\<rparr> \<lparr>path_split = posixpath_split, files = Map.empty\<rparr> []"


text \<open>The checkpoint of the first example, with the parameters of a fresh classifier.\<close>

definition checkpoint_fresh :: msgd_state where
  "checkpoint_fresh = checkpoint_state\<lparr>params := LogisticRegression_init (28 * 28) 10\<rparr>"

section \<open>Properties of \<^verbatim>\<open>load_data\<close>\<close>

lemma posixpath_split_dir:
  "posixpath_split ''data/missing.pkl.gz'' = (''data'', ''missing.pkl.gz'')"
  by (simp add: posixpath_split_def rstrip_slash_def)

lemma posixpath_split_nodir: "fst (posixpath_split ''missing.pkl.gz'') = ''''"
  by (simp add: posixpath_split_def rstrip_slash_def)

text \<open>
  C6, as stated, fails: a missing file under a directory does not raise the
  \<^verbatim>\<open>ValueError\<close>; \<^verbatim>\<open>load_data\<close> prints its message and the failure comes from
  \<^verbatim>\<open>gzip.open\<close>.
\<close>

theorem load_data_missing_in_dir_counterexample:
  "\<not> isfile \<lparr>path_split = posixpath_split, files = Map.empty\<rparr> ''data/missing.pkl.gz''
   \<and> load_data \<lparr>path_split = posixpath_split, files = Map.empty\<rparr> ''data/missing.pkl.gz''
       = ([''... loading data''], Inl OSError)"
  by (simp add: load_data_def isfile_def gzip_pickle_load_def posixpath_split_dir)

text \<open>
  C6 (amended): \<^verbatim>\<open>load_data\<close> raises the \<^verbatim>\<open>ValueError\<close> ``Incorrect dataset path''
  exactly for the paths whose directory part is empty and that do not name an existing
  file, and it does so before anything is printed or opened. A missing file whose path
  has a directory part is reported by \<^verbatim>\<open>gzip.open\<close> instead, after the loading message.
\<close>

theorem load_data_value_error:
  "(snd (load_data os dataset) = Inl (ValueError ''Incorrect dataset path'')
      \<longleftrightarrow> fst (path_split os dataset) = [] \<and> \<not> isfile os dataset)
   \<and> (fst (path_split os dataset) = [] \<and> \<not> isfile os dataset
      \<longrightarrow> load_data os dataset = ([], Inl (ValueError ''Incorrect dataset path'')))
   \<and> (fst (path_split os dataset) \<noteq> [] \<and> \<not> isfile os dataset
      \<longrightarrow> load_data os dataset = ([''... loading data''], Inl OSError))"
  by (auto simp: load_data_def isfile_def gzip_pickle_load_def
      split: prod.splits option.splits stored_file.splits pyobj.splits sum.splits)

theorem load_data_value_error_witness:
  "snd (load_data \<lparr>path_split = posixpath_split, files = Map.empty\<rparr> ''missing.pkl.gz'')
     = Inl (ValueError ''Incorrect dataset path'')
   \<and> load_data \<lparr>path_split = posixpath_split, files = Map.empty\<rparr> ''missing.pkl.gz''
     = ([], Inl (ValueError ''Incorrect dataset path''))
   \<and> load_data \<lparr>path_split = posixpath_split, files = Map.empty\<rparr> ''data/missing.pkl.gz''
     = ([''... loading data''], Inl OSError)"
  using load_data_value_error
    [of "\<lparr>path_split = posixpath_split, files = Map.empty\<rparr>" "''missing.pkl.gz''"]
    load_data_value_error
    [of "\<lparr>path_split = posixpath_split, files = Map.empty\<rparr>" "''data/missing.pkl.gz''"]
  by (simp add: isfile_def posixpath_split_dir posixpath_split_nodir)

section \<open>Properties of a validation checkpoint\<close>

lemma py_range_two: "py_range 2 = [0, 1]"
  by (simp add: py_range_def upt_rec)

lemma py_range_one: "py_range 1 = [0]"
  by (simp add: py_range_def)

text \<open>
  C1: at a training step that is a validation checkpoint and whose freshly computed
  mean validation error is strictly below the best value seen so far, the best value
  becomes the new validation error, and \<^verbatim>\<open>patience\<close> becomes
  \<open>max patience (iter_no * 2)\<close> when the new error is strictly below 0.995 times the
  previous best, and is left unchanged otherwise.
\<close>

theorem checkpoint_patience:
  fixes env :: msgd_env and s s' :: msgd_state and minibatch_index :: int
  defines "iter_no \<equiv> (epoch s - 1) * n_train_batches env + minibatch_index"
  defines "validation_loss \<equiv> numpy_mean
      (map (\<lambda>i. validate_model env i (train_model env minibatch_index (params s)))
        (py_range (n_validate_batches env)))"
  assumes "train_step env minibatch_index s = Inr (s', leave)"
    and "(iter_no + 1) mod validation_freq env = 0"
    and "flt validation_loss (best_validation_loss s)"
  shows "best_validation_loss s' = validation_loss
     \<and> patience s' = (if flt validation_loss (fscale 0.995 (best_validation_loss s))
                      then max (patience s) (iter_no * 2) else patience s)"
  using assms
  by (auto simp: train_step_def validation_check_def new_best_def call_each_eq Let_def
      improvement_thresh_def patience_mult_def split: if_splits prod.splits)

theorem checkpoint_patience_witness:
  "\<exists>s'. train_step checkpoint_env 1999 checkpoint_state = Inr (s', False)
      \<and> best_validation_loss s' = Fin (1/5) \<and> patience s' = 9998"
proof -
  obtain s' where run: "train_step checkpoint_env 1999 checkpoint_state = Inr (s', False)"
    by (simp add: train_step_def checkpoint_env_def checkpoint_state_def validation_check_def
        new_best_def call_each_eq Let_def py_range_two py_range_one numpy_mean_def
        improvement_thresh_def patience_mult_def)
  have due: "((epoch checkpoint_state - 1) * n_train_batches checkpoint_env + 1999 + 1)
      mod validation_freq checkpoint_env = 0"
    by (simp add: checkpoint_env_def checkpoint_state_def)
  have vl: "numpy_mean
      (map (\<lambda>i. validate_model checkpoint_env i (train_model checkpoint_env 1999 (params checkpoint_state)))
        (py_range (n_validate_batches checkpoint_env))) = Fin (1/5)"
    by (simp add: checkpoint_env_def py_range_two numpy_mean_def)
  have better: "flt (Fin (1/5)) (best_validation_loss checkpoint_state)"
    by (simp add: checkpoint_state_def)
  from checkpoint_patience [OF run due] vl better
  have "best_validation_loss s' = Fin (1/5) \<and> patience s' = 9998"
    by (simp add: checkpoint_state_def checkpoint_env_def)
  with run show ?thesis by blast
qed

text \<open>
  What a checkpoint does besides updating \<^verbatim>\<open>patience\<close>: when the validation error
  improves (whatever the margin), the test batches are all evaluated, \<^verbatim>\<open>test_score\<close>
  becomes one minus their mean error, a test line is printed after the validation line
  and the trained classifier is pickled to \<^verbatim>\<open>SAVED_MODEL\<close>, replacing the file; otherwise
  only the validation line is printed and no file is written.
\<close>

lemma checkpoint_effects:
  fixes env :: msgd_env and s s' :: msgd_state and minibatch_index :: int
  defines "iter_no \<equiv> (epoch s - 1) * n_train_batches env + minibatch_index"
  defines "trained \<equiv> train_model env minibatch_index (params s)"
  defines "validation_loss \<equiv> numpy_mean
      (map (\<lambda>i. validate_model env i trained) (py_range (n_validate_batches env)))"
  defines "accuracy \<equiv> fminus_from 1 (numpy_mean
      (map (\<lambda>i. test_model env i trained) (py_range (n_test_batches env))))"
  assumes "train_step env minibatch_index s = Inr (s', leave)"
    and "(iter_no + 1) mod validation_freq env = 0"
  shows "if flt validation_loss (best_validation_loss s)
     then test_score s' = accuracy
        \<and> calls s' = calls s @ TrainCall minibatch_index
              # map ValidateCall (py_range (n_validate_batches env))
              @ map TestCall (py_range (n_test_batches env)) @ [DumpCall SAVED_MODEL]
        \<and> disk s' = pickle_dump (disk s) SAVED_MODEL (Model trained)
        \<and> printed s' = printed s @
            [ValidationLine (epoch s) (minibatch_index + 1) (n_train_batches env)
               (fscale 100 validation_loss),
             TestLine (epoch s) (minibatch_index + 1) (n_train_batches env)
               (fscale 100 accuracy)]
     else test_score s' = test_score s \<and> disk s' = disk s
        \<and> calls s' = calls s @ TrainCall minibatch_index
              # map ValidateCall (py_range (n_validate_batches env))
        \<and> printed s' = printed s @
            [ValidationLine (epoch s) (minibatch_index + 1) (n_train_batches env)
               (fscale 100 validation_loss)]"
  using assms
  by (auto simp: train_step_def validation_check_def new_best_def call_each_eq Let_def
      split: if_splits prod.splits)

text \<open>
  C8: at the checkpoint of the example the validation error improves, the classifier is
  pickled, and the test line is printed. The mean test error is 0.25, that is 25 percent,
  but the number on the line labelled ``test error of best model'' is 75: the line
  reports \<open>100 * (1 - mean test error)\<close>, the accuracy.
\<close>

theorem test_line_reports_accuracy:
  "\<exists>s'. train_step checkpoint_env 1999 checkpoint_state = Inr (s', False)
     \<and> numpy_mean (map (\<lambda>i. test_model checkpoint_env i (params s'))
          (py_range (n_test_batches checkpoint_env))) = Fin (1/4)
     \<and> printed s' = [ValidationLine 2 2000 3000 (Fin 20), TestLine 2 2000 3000 (Fin 75)]
     \<and> files (disk s') SAVED_MODEL = Some (Pickle (Model (params s')))"
  by (simp add: train_step_def checkpoint_env_def checkpoint_state_def validation_check_def
        new_best_def call_each_eq Let_def py_range_two py_range_one numpy_mean_def
        improvement_thresh_def patience_mult_def pickle_dump_def)

section \<open>Reasoning about the training loop\<close>

text \<open>What one execution of the loop body does to the state, and when it fails.\<close>

lemma validate_calls_append [simp]:
  "validate_calls (xs @ ys) = validate_calls xs @ validate_calls ys"
  by (induction xs rule: validate_calls.induct) simp_all

lemma validate_calls_map [simp]:
  "validate_calls (map ValidateCall is) = is"
  "validate_calls (map TestCall is) = []"
  by (induction "is") simp_all

lemma test_calls_append [simp]:
  "test_calls (xs @ ys) = test_calls xs @ test_calls ys"
  by (induction xs rule: test_calls.induct) simp_all

lemma test_calls_map [simp]:
  "test_calls (map TestCall is) = is"
  "test_calls (map ValidateCall is) = []"
  by (induction "is") simp_all

lemma validation_check_facts:
  "trace (validation_check env i it s) = trace s"
  "epoch (validation_check env i it s) = epoch s"
  "done_looping (validation_check env i it s) = done_looping s"
  "params (validation_check env i it s) = params s"
  "patience s \<le> patience (validation_check env i it s)"
  by (simp_all add: validation_check_def new_best_def call_each_eq Let_def)

text \<open>
  The calls and the lines of a validation check: every validation batch is evaluated
  and the validation line is printed; after an improvement every test batch is
  evaluated, the test line is printed and the classifier is pickled.
\<close>

lemma validation_check_effects:
  fixes env :: msgd_env and s :: msgd_state
  defines "improved \<equiv> flt (numpy_mean (map (\<lambda>j. validate_model env j (params s))
                           (py_range (n_validate_batches env)))) (best_validation_loss s)"
  shows "calls (validation_check env i it s)
       = calls s @ map ValidateCall (py_range (n_validate_batches env))
           @ (if improved then map TestCall (py_range (n_test_batches env))
                @ [DumpCall SAVED_MODEL] else [])"
    and "\<exists>v t. printed (validation_check env i it s)
       = printed s @ ValidationLine (epoch s) (i + 1) (n_train_batches env) v
           # (if improved then [TestLine (epoch s) (i + 1) (n_train_batches env) t] else [])"
  by (simp_all add: validation_check_def new_best_def call_each_eq Let_def improved_def)

lemma train_step_trace:
  assumes "train_step env i s = Inr (s', l)"
  shows "\<exists>info. trace s' = trace s @ [info]
     \<and> at_epoch info = epoch s \<and> at_minibatch info = i
     \<and> at_iter info = (epoch s - 1) * n_train_batches env + i
     \<and> patience_after info = patience s' \<and> stopped info = l
     \<and> l = (patience s' \<le> at_iter info)
     \<and> calls s' = calls s @ calls_made info
     \<and> validate_calls (calls_made info) =
          (if (at_iter info + 1) mod validation_freq env = 0
           then py_range (n_validate_batches env) else [])
     \<and> validated info = (if (at_iter info + 1) mod validation_freq env = 0
                          then Some (py_range (n_validate_batches env)) else None)"
proof -
  define s1 where "s1 = s\<lparr>params := train_model env i (params s), calls := calls s @ [TrainCall i]\<rparr>"
  define iter_no where "iter_no = (epoch s - 1) * n_train_batches env + i"
  define s2 where "s2 = (if (iter_no + 1) mod validation_freq env = 0
                     then validation_check env i iter_no s1 else s1)"
  define info where "info = \<lparr>at_epoch = epoch s2, at_minibatch = i, at_iter = iter_no,
       calls_made = drop (length (calls s)) (calls s2),
       validated = (if list_ex is_validation_line (drop (length (printed s)) (printed s2))
                    then Some (validate_calls (drop (length (calls s)) (calls s2))) else None),
       tested = (if list_ex is_test_line (drop (length (printed s)) (printed s2))
                 then Some (test_calls (drop (length (calls s)) (calls s2))) else None),
       persisted = (DumpCall SAVED_MODEL \<in> set (drop (length (calls s)) (calls s2))),
       patience_after = patience s2, stopped = (iter_no \<ge> patience s2)\<rparr>"
  from assms have res: "trace s' = trace s2 @ [info]" "patience s' = patience s2"
    "calls s' = calls s2" "l = (patience s2 \<le> iter_no)"
    by (auto simp: train_step_def Let_def s1_def iter_no_def s2_def info_def split: if_splits)
  have tr: "trace s2 = trace s" and ep: "epoch s2 = epoch s"
    by (simp_all add: s2_def s1_def validation_check_facts)
  have cs: "calls s2 = calls s @ TrainCall i #
      (if (iter_no + 1) mod validation_freq env = 0
       then drop (Suc (length (calls s))) (calls (validation_check env i iter_no s1)) else [])"
    using validation_check_effects(1) [of env i iter_no s1]
    by (simp add: s2_def s1_def)
  have vc: "validate_calls (drop (length (calls s)) (calls s2)) =
      (if (iter_no + 1) mod validation_freq env = 0 then py_range (n_validate_batches env) else [])"
    using validation_check_effects(1) [of env i iter_no s1]
    by (simp add: s2_def s1_def)
  have pl: "list_ex is_validation_line (drop (length (printed s)) (printed s2))
      = ((iter_no + 1) mod validation_freq env = 0)"
    using validation_check_effects(2) [of env i iter_no s1]
    by (auto simp: s2_def s1_def)
  have "calls s2 = calls s @ drop (length (calls s)) (calls s2)"
    using cs by simp
  with res tr ep vc pl show ?thesis
    by (intro exI [of _ info]) (simp add: info_def iter_no_def)
qed

lemma train_step_state:
  assumes "train_step env i s = Inr (s', l)"
  shows "done_looping s' = (l \<or> done_looping s) \<and> patience s \<le> patience s'
     \<and> validation_freq env \<noteq> 0"
  using assms validation_check_facts(5) [of "s\<lparr>params := train_model env i (params s),
      calls := calls s @ [TrainCall i]\<rparr>" env i "(epoch s - 1) * n_train_batches env + i"]
  by (auto simp: train_step_def Let_def validation_check_facts split: if_splits)

lemma train_step_total:
  "validation_freq env \<noteq> 0 \<Longrightarrow> \<exists>s' l. train_step env i s = Inr (s', l)"
  by (auto simp: train_step_def Let_def split: if_splits prod.splits)

lemma for_loop_total:
  "validation_freq env \<noteq> 0 \<Longrightarrow> \<exists>s'. for_loop env is s = Inr s'"
proof (induction "is" arbitrary: s)
  case Nil
  then show ?case by simp
next
  case (Cons i rest)
  from train_step_total [OF Cons.prems] obtain t l where "train_step env i s = Inr (t, l)"
    by blast
  with Cons.IH [OF Cons.prems, of t] show ?case by auto
qed

text \<open>
  Invariant rules for the two loops. In the rule for the \<^verbatim>\<open>for\<close> loop the invariant
  may depend on the position in \<^verbatim>\<open>range(n_train_batches)\<close>; \<open>Q\<close> holds after a
  \<^verbatim>\<open>break\<close>.
\<close>

lemma for_loop_rule:
  assumes run: "for_loop env (map int [i..<m]) s = Inr s'"
    and init: "I i s" and le: "i \<le> m"
    and step: "\<And>k t t' l. k < m \<Longrightarrow> I k t \<Longrightarrow> train_step env (int k) t = Inr (t', l)
                \<Longrightarrow> (if l then Q t' else I (Suc k) t')"
  shows "Q s' \<or> I m s'"
  using run init le
proof (induction "m - i" arbitrary: i s)
  case 0
  then show ?case by simp
next
  case (Suc d)
  then have lt: "i < m" by simp
  then have unfold: "map int [i..<m] = int i # map int [Suc i..<m]"
    by (simp add: upt_conv_Cons)
  from Suc.prems(1) obtain t l where first: "train_step env (int i) s = Inr (t, l)"
    and rest: "if l then s' = t else for_loop env (map int [Suc i..<m]) t = Inr s'"
    unfolding unfold by (auto split: sum.splits prod.splits if_splits)
  from step [OF lt Suc.prems(2) first] have after: "if l then Q t else I (Suc i) t" .
  show ?case
  proof (cases l)
    case True
    with rest after show ?thesis by simp
  next
    case False
    with rest after have "for_loop env (map int [Suc i..<m]) t = Inr s'" and "I (Suc i) t"
      by simp_all
    moreover from Suc.hyps(2) lt have "d = m - Suc i" and "Suc i \<le> m" by simp_all
    ultimately show ?thesis using Suc.hyps(1) by blast
  qed
qed

lemma while_loop_rule:
  assumes run: "while_loop env s = Inr s'"
    and init: "J s"
    and body: "\<And>t t'. J t \<Longrightarrow> epoch t < n_epochs env \<Longrightarrow> \<not> done_looping t
        \<Longrightarrow> for_loop env (py_range (n_train_batches env)) (t\<lparr>epoch := epoch t + 1\<rparr>) = Inr t'
        \<Longrightarrow> J t'"
  shows "J s' \<and> \<not> (epoch s' < n_epochs env \<and> \<not> done_looping s')"
  using run init body
proof (induction env s rule: while_loop.induct)
  case (1 env s)
  show ?case
  proof (cases "epoch s < n_epochs env \<and> \<not> done_looping s")
    case False
    with "1.prems"(1,2) show ?thesis by (simp add: while_loop.simps)
  next
    case True
    with "1.prems"(1) obtain t where
      inner: "for_loop env (py_range (n_train_batches env)) (s\<lparr>epoch := epoch s + 1\<rparr>) = Inr t"
      and outer: "while_loop env t = Inr s'"
      by (subst (asm) while_loop.simps) (auto split: sum.splits)
    from "1.prems"(3) [OF "1.prems"(2) _ _ inner] True have "J t" by simp
    from "1.IH" [OF True inner outer this "1.prems"(3)] show ?thesis by simp
  qed
qed

text \<open>
  The loop never raises when the validation frequency is not zero, or when there is no
  training batch at all (the body is then never run).
\<close>

lemma while_loop_total:
  assumes "validation_freq env \<noteq> 0 \<or> n_train_batches env \<le> 0"
  shows "\<exists>s'. while_loop env s = Inr s'"
  using assms
proof (induction env s rule: while_loop.induct)
  case (1 env s)
  show ?case
  proof (cases "epoch s < n_epochs env \<and> \<not> done_looping s")
    case False
    then show ?thesis by (subst while_loop.simps) auto
  next
    case True
    have "\<exists>t. for_loop env (py_range (n_train_batches env)) (s\<lparr>epoch := epoch s + 1\<rparr>) = Inr t"
      using "1.prems" for_loop_total [of env] by (auto simp: py_range_def)
    then obtain t where
      inner: "for_loop env (py_range (n_train_batches env)) (s\<lparr>epoch := epoch s + 1\<rparr>) = Inr t"
      by blast
    from "1.IH" [OF True inner "1.prems"] obtain s' where "while_loop env t = Inr s'" by blast
    with True inner show ?thesis by (subst while_loop.simps) simp
  qed
qed

lemma trace_inv_epoch [simp]: "trace_inv env (s\<lparr>epoch := e\<rparr>) = trace_inv env s"
  by (simp add: trace_inv_def)

lemma trace_inv_step:
  assumes inv: "trace_inv env t" and nd: "\<not> done_looping t"
    and len: "int (length (trace t)) = (epoch t - 1) * n_train_batches env + i"
    and step: "train_step env i t = Inr (t', l)"
  shows "trace_inv env t' \<and> done_looping t' = l \<and> length (trace t') = Suc (length (trace t))"
proof -
  from train_step_trace [OF step] obtain info where
    tr: "trace t' = trace t @ [info]"
    and it: "at_iter info = (epoch t - 1) * n_train_batches env + i"
    and pa: "patience_after info = patience t'" and st: "stopped info = l"
    and l: "l = (patience t' \<le> at_iter info)"
    and cl: "calls t' = calls t @ calls_made info"
    and vc: "validate_calls (calls_made info) = (if (at_iter info + 1) mod validation_freq env = 0
                          then py_range (n_validate_batches env) else [])"
    and va: "validated info = (if (at_iter info + 1) mod validation_freq env = 0
                          then Some (py_range (n_validate_batches env)) else None)"
    by blast
  from train_step_state [OF step] nd have dl: "done_looping t' = l" and mono: "patience t \<le> patience t'"
    by simp_all
  from it len have it': "at_iter info = int (length (trace t))" by simp
  from inv nd have old_ns: "\<forall>k<length (trace t). \<not> stopped (trace t ! k)"
    and bound: "int (length (trace t)) \<le> patience t"
    by (auto simp: trace_inv_def)
  have "trace_inv env t'"
    unfolding trace_inv_def
  proof (intro conjI allI impI)
    fix k assume k: "k < length (trace t')"
    show "at_iter (trace t' ! k) = int k"
      using inv k tr it' by (cases "k < length (trace t)") (auto simp: trace_inv_def nth_append less_Suc_eq)
    show "stopped (trace t' ! k) = (patience_after (trace t' ! k) \<le> int k)"
      using inv k tr it' st l pa by (cases "k < length (trace t)") (auto simp: trace_inv_def nth_append less_Suc_eq)
    show "int k \<le> patience_after (trace t' ! k)"
      using inv k tr pa bound mono by (cases "k < length (trace t)") (auto simp: trace_inv_def nth_append less_Suc_eq)
    show "patience_after (trace t' ! k) \<le> patience t'"
      using inv k tr pa mono by (cases "k < length (trace t)") (fastforce simp: trace_inv_def nth_append less_Suc_eq)+
    show "validate_calls (calls_made (trace t' ! k)) = (if (int k + 1) mod validation_freq env = 0
             then py_range (n_validate_batches env) else [])"
      using inv k tr vc it' by (cases "k < length (trace t)") (auto simp: trace_inv_def nth_append less_Suc_eq)
    show "validated (trace t' ! k) = (if (int k + 1) mod validation_freq env = 0
             then Some (py_range (n_validate_batches env)) else None)"
      using inv k tr va it' by (cases "k < length (trace t)") (auto simp: trace_inv_def nth_append less_Suc_eq)
    assume "stopped (trace t' ! k)"
    then show "Suc k = length (trace t')"
      using old_ns k tr by (cases "k < length (trace t)") (auto simp: nth_append less_Suc_eq)
  next
    show "calls t' = concat (map calls_made (trace t'))"
      using inv tr cl by (simp add: trace_inv_def)
  next
    show "done_looping t' = (\<exists>k<length (trace t'). stopped (trace t' ! k))"
      using old_ns tr st dl by (auto simp: nth_append less_Suc_eq)
  next
    assume "\<not> done_looping t'"
    with dl l it' tr show "int (length (trace t')) \<le> patience t'" by simp
  qed
  with dl tr show ?thesis by simp
qed


lemma run_inv_epoch:
  assumes inv: "run_inv env t" and lt: "epoch t < n_epochs env" and nd: "\<not> done_looping t"
    and run: "for_loop env (py_range (n_train_batches env)) (t\<lparr>epoch := epoch t + 1\<rparr>) = Inr t'"
  shows "run_inv env t'"
proof (cases "n_train_batches env \<le> 0")
  case True
  then have "py_range (n_train_batches env) = []" by (simp add: py_range_def)
  with run have "t' = t\<lparr>epoch := epoch t + 1\<rparr>" by simp
  with inv lt nd True show ?thesis by (simp add: run_inv_def max_def)
next
  case False
  define n where "n = n_train_batches env"
  define I where "I = (\<lambda>k u. trace_inv env u \<and> \<not> done_looping u \<and> epoch u = epoch t + 1
      \<and> int (length (trace u)) = (epoch u - 1) * n + int k)"
  define Q where "Q = (\<lambda>u. trace_inv env u \<and> done_looping u \<and> epoch u = epoch t + 1
      \<and> int (length (trace u)) \<le> epoch u * n)"
  from False have npos: "0 < n" and mx: "max 0 (n_train_batches env) = n"
    by (simp_all add: n_def)
  have run': "for_loop env (map int [0..<nat n]) (t\<lparr>epoch := epoch t + 1\<rparr>) = Inr t'"
    using run by (simp add: py_range_def n_def)
  have init: "I 0 (t\<lparr>epoch := epoch t + 1\<rparr>)"
    using inv nd mx by (simp add: I_def run_inv_def)
  have step: "if l then Q u' else I (Suc k) u'"
    if "k < nat n" and "I k u" and "train_step env (int k) u = Inr (u', l)" for k u u' l
  proof -
    from that(2) have a: "trace_inv env u" and b: "\<not> done_looping u"
      and e: "epoch u = epoch t + 1"
      and c: "int (length (trace u)) = (epoch u - 1) * n_train_batches env + int k"
      by (simp_all add: I_def n_def)
    from trace_inv_step [OF a b c that(3)] have
      r: "trace_inv env u'" "done_looping u' = l" "length (trace u') = Suc (length (trace u))"
      by simp_all
    from train_step_epoch [OF that(3)] e have e': "epoch u' = epoch t + 1" by simp
    from that(1) have kn: "int k + 1 \<le> n" by simp
    have "int (length (trace u')) = (epoch u' - 1) * n + int (Suc k)"
      using r(3) c e e' by (simp add: n_def)
    moreover from this kn have "int (length (trace u')) \<le> epoch u' * n"
      by (simp add: algebra_simps)
    ultimately show ?thesis using r e' by (simp add: I_def Q_def)
  qed
  from for_loop_rule [where I = I and Q = Q, OF run' init _ step]
  have "Q t' \<or> I (nat n) t'" by simp
  then show ?thesis
  proof
    assume "Q t'"
    with lt inv mx show ?thesis by (auto simp: Q_def run_inv_def)
  next
    assume "I (nat n) t'"
    with lt inv mx npos show ?thesis by (auto simp: I_def run_inv_def algebra_simps)
  qed
qed

lemma while_loop_run_inv:
  assumes "while_loop env s = Inr s'" and "run_inv env s"
  shows "run_inv env s'"
  using while_loop_rule [where J = "run_inv env", OF assms run_inv_epoch] by simp

section \<open>Properties of a whole training run\<close>

text \<open>The small example run, evaluated.\<close>

lemma small_run_trace:
  "\<exists>s. small_run = Inr s
     \<and> map at_iter (trace s) = [0, 1, 2, 3]
     \<and> map calls_made (trace s) = [[TrainCall 0],
           [TrainCall 1, ValidateCall 0, TestCall 0, DumpCall SAVED_MODEL],
           [TrainCall 0], [TrainCall 1, ValidateCall 0]]
     \<and> map validated (trace s) = [None, Some [0], None, Some [0]]
     \<and> map persisted (trace s) = [False, True, False, False]
     \<and> map patience_after (trace s) = [5000, 5000, 5000, 5000]
     \<and> map stopped (trace s) = [False, False, False, False]
     \<and> map patience_after (filter (\<lambda>r. validated r \<noteq> None) (trace s)) = [5000, 5000]
     \<and> patience s = 5000
     \<and> epoch s = 2 \<and> \<not> done_looping s"
  by (simp add: small_run_def train_the_model_def loop_env_def initial_patience_def while_loop.simps
     py_range_two py_range_one train_step_def validation_check_def new_best_def call_each_eq Let_def
     numpy_mean_def improvement_thresh_def patience_mult_def pickle_dump_def)

text \<open>
  \<^verbatim>\<open>train_the_model\<close> always returns: the validation frequency is zero only when there
  is no training batch. Its final state satisfies the invariant of the loop.
\<close>

lemma train_the_model_run:
  "\<exists>s s'. train_the_model epochs n nv nt train validate test clf fs out = Inr s
      \<and> run_inv (loop_env epochs n nv nt train validate test) s' \<and> \<not> (epoch s' < epochs \<and> \<not> done_looping s')
      \<and> trace s = trace s' \<and> epoch s = epoch s' \<and> done_looping s = done_looping s'
      \<and> patience s = patience s' \<and> calls s = calls s'"
proof -
  define env where "env = loop_env epochs n nv nt train validate test"
  define s0 where "s0 = \<lparr>params = clf, patience = initial_patience, best_validation_loss = PInf,
                test_score = Fin 0, done_looping = False, epoch = 0, disk = fs,
                printed = out @ [Text ''... training the model''], calls = [], trace = []\<rparr>"
  have "validation_freq env \<noteq> 0 \<or> n_train_batches env \<le> 0"
    by (auto simp: env_def loop_env_def initial_patience_def)
  from while_loop_total [OF this, of s0] obtain s' where run: "while_loop env s0 = Inr s'"
    by blast
  have "run_inv env s0"
    by (simp add: run_inv_def trace_inv_def s0_def initial_patience_def)
  from while_loop_rule [where J = "run_inv env", OF run this run_inv_epoch]
  have "run_inv env s'" and "\<not> (epoch s' < epochs \<and> \<not> done_looping s')"
    by (simp_all add: env_def loop_env_def)
  moreover have "train_the_model epochs n nv nt train validate test clf fs out
      = Inr (s'\<lparr>printed := printed s' @
             [Summary (fscale 100 (best_validation_loss s')) (fscale 100 (test_score s'))]\<rparr>)"
    using run by (simp add: train_the_model_def env_def s0_def Let_def)
  ultimately show ?thesis unfolding env_def by auto
qed

text \<open>
  \<^verbatim>\<open>msgd_optimization_mnist\<close> fails only while loading the data or, for a batch size of
  zero, while counting the batches; otherwise it is the training section on the batch
  counts and compiled functions of its splits, so what is proved below of every run of
  the training section holds of every run of the function.
\<close>

lemma msgd_optimization_mnist_run:
  assumes "load_data os dataset = (out, Inr (train_set, validate_set, test_set))"
    and "batch_size \<noteq> 0"
  shows "msgd_optimization_mnist compiled_train compiled_errors os learning_rate epochs
           dataset batch_size
       = train_the_model epochs
           (int (length (fst train_set)) div batch_size)
           (int (length (fst validate_set)) div batch_size)
           (int (length (fst test_set)) div batch_size)
           (\<lambda>index. compiled_train learning_rate (givens batch_size train_set index))
           (\<lambda>index. compiled_errors (givens batch_size validate_set index))
           (\<lambda>index. compiled_errors (givens batch_size test_set index))
           (LogisticRegression_init (28 * 28) 10) os
           (map Text out @ [Text ''... building the model''])"
  using assms by (simp add: msgd_optimization_mnist_def n_batches_def)

lemma msgd_optimization_mnist_errors:
  "msgd_optimization_mnist compiled_train compiled_errors os learning_rate epochs
       dataset batch_size = Inl e
   \<Longrightarrow> snd (load_data os dataset) = Inl e \<or> (batch_size = 0 \<and> e = ZeroDivisionError)"
proof (cases "load_data os dataset")
  case (Pair out r)
  assume failed: "msgd_optimization_mnist compiled_train compiled_errors os learning_rate
      epochs dataset batch_size = Inl e"
  show ?thesis
  proof (cases r)
    case (Inl e')
    with Pair failed show ?thesis by (simp add: msgd_optimization_mnist_def)
  next
    case (Inr splits)
    obtain train_set validate_set test_set where "splits = (train_set, validate_set, test_set)"
      by (cases splits)
    with Pair Inr have ld: "load_data os dataset = (out, Inr (train_set, validate_set, test_set))"
      by simp
    show ?thesis
    proof (cases "batch_size = 0")
      case True
      with ld failed show ?thesis by (simp add: msgd_optimization_mnist_def n_batches_def)
    next
      case False
      from train_the_model_run obtain s where
        "train_the_model epochs
           (int (length (fst train_set)) div batch_size)
           (int (length (fst validate_set)) div batch_size)
           (int (length (fst test_set)) div batch_size)
           (\<lambda>index. compiled_train learning_rate (givens batch_size train_set index))
           (\<lambda>index. compiled_errors (givens batch_size validate_set index))
           (\<lambda>index. compiled_errors (givens batch_size test_set index))
           (LogisticRegression_init (28 * 28) 10) os
           (map Text out @ [Text ''... building the model'']) = Inr s"
        by blast
      with msgd_optimization_mnist_run [OF ld False, of compiled_train compiled_errors
          learning_rate epochs] failed
      show ?thesis by simp
    qed
  qed
qed

text \<open>
  C2: the training loop always terminates. It runs at most \<open>n_epochs * n_train_batches\<close>
  training steps and at most \<open>n_epochs\<close> epochs, and it ends before the epoch limit only
  with \<^verbatim>\<open>done_looping\<close> set. The \<open>k\<close>-th training step has global index \<open>k\<close>; it sets
  \<^verbatim>\<open>done_looping\<close> and leaves the loop exactly when \<open>k\<close> has reached the value
  \<^verbatim>\<open>patience\<close> has at that step, no step is run with an index above \<^verbatim>\<open>patience\<close>, and a
  step that leaves the loop is the last one.
\<close>

theorem training_terminates:
  "\<exists>s. train_the_model epochs n nv nt train validate test clf fs out = Inr s
     \<and> length (trace s) \<le> nat epochs * nat n
     \<and> epoch s \<le> max 0 epochs
     \<and> (epoch s < epochs \<longrightarrow> done_looping s)
     \<and> (done_looping s \<longleftrightarrow> (\<exists>k<length (trace s). stopped (trace s ! k)))
     \<and> (\<forall>k<length (trace s).
           at_iter (trace s ! k) = int k
           \<and> stopped (trace s ! k) = (patience_after (trace s ! k) \<le> int k)
           \<and> int k \<le> patience_after (trace s ! k)
           \<and> (stopped (trace s ! k) \<longrightarrow> Suc k = length (trace s)))"
proof -
  from train_the_model_run [of epochs n nv nt train validate test clf fs out]
  obtain s s' where res: "train_the_model epochs n nv nt train validate test clf fs out = Inr s"
    and inv: "run_inv (loop_env epochs n nv nt train validate test) s'"
    and exit: "\<not> (epoch s' < epochs \<and> \<not> done_looping s')"
    and same: "trace s = trace s'" "epoch s = epoch s'" "done_looping s = done_looping s'"
    by blast
  from inv have len: "int (length (trace s)) \<le> epoch s * max 0 n"
    and ep: "0 \<le> epoch s" "epoch s \<le> max 0 epochs"
    by (simp_all add: run_inv_def same loop_env_def)
  have "epoch s * max 0 n \<le> max 0 epochs * max 0 n"
    using ep by (intro mult_right_mono) simp_all
  with len have "int (length (trace s)) \<le> int (nat epochs * nat n)"
    by (simp add: max_def split: if_splits)
  then have bound: "length (trace s) \<le> nat epochs * nat n"
    by linarith
  from inv have tr: "trace_inv (loop_env epochs n nv nt train validate test) s'"
    by (simp add: run_inv_def)
  from tr have steps: "\<forall>k<length (trace s).
           at_iter (trace s ! k) = int k
           \<and> stopped (trace s ! k) = (patience_after (trace s ! k) \<le> int k)
           \<and> int k \<le> patience_after (trace s ! k)
           \<and> (stopped (trace s ! k) \<longrightarrow> Suc k = length (trace s))"
    and dl: "done_looping s \<longleftrightarrow> (\<exists>k<length (trace s). stopped (trace s ! k))"
    unfolding trace_inv_def same by simp_all
  from exit have "epoch s < epochs \<longrightarrow> done_looping s"
    by (simp add: same)
  with res bound ep(2) steps dl show ?thesis
    by blast
qed

theorem training_terminates_witness:
  "\<exists>s. small_run = Inr s \<and> length (trace s) = 4 \<and> 4 \<le> nat 2 * nat 2 \<and> epoch s = 2
     \<and> \<not> done_looping s"
proof -
  from small_run_trace obtain s where s: "small_run = Inr s" "map at_iter (trace s) = [0, 1, 2, 3]"
    "epoch s = 2" "\<not> done_looping s"
    by (elim exE conjE)
  from s(2) have "length (map at_iter (trace s)) = 4" by simp
  then have len: "length (trace s) = 4" by simp
  from training_terminates [of 2 2 1 1 "\<lambda>i c. c" "\<lambda>i c. 1/10" "\<lambda>i c. 1/4"
     "\<lparr>W = [], b = []\<rparr>" "\<lparr>path_split = posixpath_split, files = Map.empty\<rparr>" "[]"]
  have "length (trace s) \<le> nat 2 * nat 2"
    using s(1) by (auto simp: small_run_def)
  with s len show ?thesis by auto
qed

text \<open>The invariant of the values of \<^verbatim>\<open>patience\<close> is kept by every step and every epoch.\<close>

lemma patience_inv_step:
  assumes "patience_inv t" and "train_step env i t = Inr (t', l)"
  shows "patience_inv t'"
proof -
  from train_step_trace [OF assms(2)] obtain info where
    tr: "trace t' = trace t @ [info]" and pa: "patience_after info = patience t'"
    by blast
  from train_step_state [OF assms(2)] have mono: "patience t \<le> patience t'"
    by simp
  from assms(1) have old: "\<forall>x\<in>set (trace t). patience_after x \<le> patience t"
    by (auto simp: patience_inv_def in_set_conv_nth)
  have "sorted (map patience_after (trace t'))"
    using assms(1) old mono tr pa by (fastforce simp: patience_inv_def sorted_append)
  moreover have "\<forall>k<length (trace t'). initial_patience \<le> patience_after (trace t' ! k)
            \<and> patience_after (trace t' ! k) \<le> patience t'"
    using assms(1) mono tr pa by (fastforce simp: patience_inv_def nth_append less_Suc_eq)
  moreover have "initial_patience \<le> patience t'"
    using assms(1) mono by (simp add: patience_inv_def)
  ultimately show ?thesis by (simp add: patience_inv_def)
qed

lemma patience_inv_epoch:
  assumes inv: "patience_inv t"
    and run: "for_loop env (py_range (n_train_batches env)) (t\<lparr>epoch := epoch t + 1\<rparr>) = Inr t'"
  shows "patience_inv t'"
proof -
  have init: "patience_inv (t\<lparr>epoch := epoch t + 1\<rparr>)"
    using inv by (simp add: patience_inv_def)
  have step: "if l then patience_inv u' else patience_inv u'"
    if "patience_inv u" and "train_step env (int k) u = Inr (u', l)" for k u u' l
    using patience_inv_step [OF that] by simp
  from run have "for_loop env (map int [0..<nat (n_train_batches env)])
      (t\<lparr>epoch := epoch t + 1\<rparr>) = Inr t'"
    by (simp add: py_range_def)
  from for_loop_rule [where I = "\<lambda>k. patience_inv" and Q = patience_inv, OF this init _ step]
  show ?thesis by simp
qed

text \<open>
  C3: over a whole run the values of \<^verbatim>\<open>patience\<close> at the successive validation
  checkpoints never decrease: they start at 5000, each is at least its predecessor and
  the final value is at least the last of them.
\<close>

theorem patience_never_decreases:
  "\<exists>s. train_the_model epochs n nv nt train validate test clf fs out = Inr s
     \<and> sorted (5000 # map patience_after (filter (\<lambda>r. validated r \<noteq> None) (trace s))
                @ [patience s])"
proof -
  define env where "env = loop_env epochs n nv nt train validate test"
  define s0 where "s0 = \<lparr>params = clf, patience = initial_patience, best_validation_loss = PInf,
                test_score = Fin 0, done_looping = False, epoch = 0, disk = fs,
                printed = out @ [Text ''... training the model''], calls = [], trace = []\<rparr>"
  have "validation_freq env \<noteq> 0 \<or> n_train_batches env \<le> 0"
    by (auto simp: env_def loop_env_def initial_patience_def)
  from while_loop_total [OF this, of s0] obtain s' where run: "while_loop env s0 = Inr s'"
    by blast
  define s where "s = s'\<lparr>printed := printed s' @
             [Summary (fscale 100 (best_validation_loss s')) (fscale 100 (test_score s'))]\<rparr>"
  have res: "train_the_model epochs n nv nt train validate test clf fs out = Inr s"
    using run by (simp add: train_the_model_def env_def s0_def s_def Let_def)
  have "patience_inv s0"
    by (simp add: patience_inv_def s0_def)
  from while_loop_rule [where J = patience_inv, OF run this] patience_inv_epoch
  have "patience_inv s'" by blast
  then have inv: "patience_inv s" by (simp add: patience_inv_def s_def)
  let ?cps = "filter (\<lambda>r. validated r \<noteq> None) (trace s)"
  from inv have "sorted (map patience_after ?cps)"
    by (simp add: patience_inv_def sorted_filter)
  moreover from inv have "\<forall>r\<in>set ?cps. 5000 \<le> patience_after r \<and> patience_after r \<le> patience s"
    by (auto simp: patience_inv_def in_set_conv_nth initial_patience_def)
  moreover from inv have "5000 \<le> patience s"
    by (simp add: patience_inv_def initial_patience_def)
  ultimately have "sorted (5000 # map patience_after ?cps @ [patience s])"
    by (auto simp: sorted_append)
  with res show ?thesis by blast
qed

theorem patience_never_decreases_witness:
  "\<exists>s. small_run = Inr s
     \<and> map patience_after (filter (\<lambda>r. validated r \<noteq> None) (trace s)) = [5000, 5000]
     \<and> patience s = 5000
     \<and> sorted (5000 # map patience_after (filter (\<lambda>r. validated r \<noteq> None) (trace s))
                @ [patience s])"
proof -
  from small_run_trace obtain s where s: "small_run = Inr s"
    "map patience_after (filter (\<lambda>r. validated r \<noteq> None) (trace s)) = [5000, 5000]"
    "patience s = 5000"
    by (elim exE conjE)
  from patience_never_decreases [of 2 2 1 1 "\<lambda>i c. c" "\<lambda>i c. 1/10" "\<lambda>i c. 1/4"
     "\<lparr>W = [], b = []\<rparr>" "\<lparr>path_split = posixpath_split, files = Map.empty\<rparr>" "[]"]
  have "sorted (5000 # map patience_after (filter (\<lambda>r. validated r \<noteq> None) (trace s))
                @ [patience s])"
    using s(1) by (auto simp: small_run_def)
  with s show ?thesis by (intro exI [of _ s]) simp
qed



section \<open>Properties of the batches\<close>








section \<open>Properties of the classifier\<close>

text \<open>The zero-initialised classifier.\<close>

lemma sum_list_zero_column: "sum_list (map2 (*) r (replicate n (0::real))) = 0"
proof (induction r arbitrary: n)
  case Nil
  then show ?case by simp
next
  case (Cons v r)
  then show ?case by (cases n) simp_all
qed

lemma dot_row_zero:
  assumes "0 < n_in"
  shows "dot_row r (replicate n_in (replicate n_out 0)) = replicate n_out 0"
proof -
  have cols: "n_cols (replicate n_in (replicate n_out 0)) = n_out"
    using assms by (cases n_in) (simp_all add: n_cols_def)
  have "column j (replicate n_in (replicate n_out 0)) = replicate n_in 0" if "j < n_out" for j
    using that by (simp add: column_def map_replicate_const)
  then have "map (\<lambda>j. sum_list (map2 (*) r (column j (replicate n_in (replicate n_out 0)))))
      [0..<n_out] = map (\<lambda>j. 0) [0..<n_out]"
    by (intro map_cong) (simp_all add: sum_list_zero_column)
  then show ?thesis
    by (simp add: dot_row_def cols map_replicate_const)
qed

lemma softmax_zero:
  assumes "0 < n"
  shows "softmax (replicate n 0) = replicate n (1 / real n)"
  by (simp add: softmax_def map_replicate_const sum_list_replicate)

lemma argmax_from_const: "argmax_from best v i (replicate k v) = best"
  by (induction k arbitrary: i) simp_all

lemma argmax_const:
  "argmax (replicate n v) = 0"
  by (cases n) (simp_all add: argmax_def argmax_from_const)

lemma zero_model:
  assumes "0 < n_in" and "0 < n_out" and "\<forall>r\<in>set x. length r = n_in"
  shows "p_y_given_x (LogisticRegression_init n_in n_out) x
       = Inr (replicate (length x) (replicate n_out (1 / real n_out)))"
    and "y_pred (LogisticRegression_init n_in n_out) x = Inr (replicate (length x) 0)"
proof -
  have cols: "n_cols (replicate n_in (replicate n_out (0::real))) = n_out"
    using assms(1) by (cases n_in) (simp_all add: n_cols_def)
  have "logits (LogisticRegression_init n_in n_out) x
      = Inr (map (\<lambda>r. replicate n_out 0) x)"
    using assms(3) by (simp add: logits_def LogisticRegression_init_def cols
        dot_row_zero [OF assms(1)] map_replicate_const zip_replicate)
  then show p: "p_y_given_x (LogisticRegression_init n_in n_out) x
       = Inr (replicate (length x) (replicate n_out (1 / real n_out)))"
    by (simp add: p_y_given_x_def softmax_zero [OF assms(2)] map_replicate_const comp_def)
  have "[] \<noteq> replicate n_out (1 / real n_out)" using assms(2) by simp
  then show "y_pred (LogisticRegression_init n_in n_out) x = Inr (replicate (length x) 0)"
    by (auto simp: y_pred_def p argmax_const)
qed

text \<open>
  C10: with the zero parameters created by \<^verbatim>\<open>__init__\<close> (784 inputs, 10 classes) every
  row of every input of width 784 gets probability 1/10 for each class, and the
  prediction, the first index of the largest probability, is class 0.
\<close>

theorem untrained_predicts_zero:
  assumes "\<forall>r\<in>set x. length r = 784"
  shows "p_y_given_x (LogisticRegression_init (28 * 28) 10) x
       = Inr (replicate (length x) (replicate 10 (1 / 10)))
     \<and> y_pred (LogisticRegression_init (28 * 28) 10) x = Inr (replicate (length x) 0)"
  using zero_model [of "28 * 28" 10 x] assms by simp

theorem untrained_predicts_zero_witness:
  "p_y_given_x (LogisticRegression_init (28 * 28) 10) [replicate 784 (1 / 2), replicate 784 1]
       = Inr [replicate 10 (1 / 10), replicate 10 (1 / 10)]
     \<and> y_pred (LogisticRegression_init (28 * 28) 10) [replicate 784 (1 / 2), replicate 784 1]
       = Inr [0, 0]"
  using untrained_predicts_zero [of "[replicate 784 (1 / 2), replicate 784 1]"]
  by (simp add: numeral_2_eq_2)

text \<open>The class against the specification's formulas.\<close>

lemma sum_list_nth_sum: "sum_list (map f [0..<n]) = (\<Sum>i<n. f i)"
  by (simp add: interv_sum_list_conv_sum_set_nat atLeast0LessThan)

lemma sum_list_map2:
  assumes "length xs = length ys"
  shows "sum_list (map2 f xs ys) = (\<Sum>k<length xs. f (xs ! k) (ys ! k) :: real)"
proof -
  have "map2 f xs ys = map (\<lambda>k. f (xs ! k) (ys ! k)) [0..<length xs]"
    using assms by (intro nth_equalityI) simp_all
  then show ?thesis by (simp add: sum_list_nth_sum)
qed

lemma dot_row_nth:
  assumes "length r = length w" and "j < n_cols w"
  shows "dot_row r w ! j = (\<Sum>k<length w. r ! k * w ! k ! j)"
proof -
  have "dot_row r w ! j = sum_list (map2 (*) r (column j w))"
    using assms(2) by (simp add: dot_row_def)
  also have "\<dots> = (\<Sum>k<length r. r ! k * column j w ! k)"
    using assms(1) by (intro sum_list_map2) (simp add: column_def)
  also have "\<dots> = (\<Sum>k<length w. r ! k * w ! k ! j)"
    using assms(1) by (intro sum.cong) (simp_all add: column_def)
  finally show ?thesis .
qed

lemma logits_spec:
  assumes X: "\<forall>r\<in>set X. length r = length (W c)"
    and bl: "length (b c) = n_cols (W c)"
  shows "\<exists>Z. logits c X = Inr Z \<and> length Z = length X
     \<and> (\<forall>i<length X. length (Z ! i) = length (b c)
           \<and> (\<forall>j<length (b c). Z ! i ! j = spec_logits X (W c) (b c) i j))"
proof -
  define Z where "Z = map (\<lambda>r. map2 (+) (dot_row r (W c)) (b c)) X"
  have lin: "logits c X = Inr Z"
    using X bl by (simp add: logits_def Z_def)
  have len: "length (dot_row r (W c)) = length (b c)" for r
    by (simp add: dot_row_def bl)
  have "length (Z ! i) = length (b c) \<and> (\<forall>j<length (b c). Z ! i ! j = spec_logits X (W c) (b c) i j)"
    if i: "i < length X" for i
  proof -
    from i X have li: "length (X ! i) = length (W c)" by simp
    have "Z ! i ! j = spec_logits X (W c) (b c) i j" if "j < length (b c)" for j
      using that i len dot_row_nth [OF li, of j] bl
      by (simp add: Z_def spec_logits_def)
    with i len show ?thesis by (simp add: Z_def)
  qed
  moreover have "length Z = length X" by (simp add: Z_def)
  ultimately show ?thesis using lin by blast
qed

lemma softmax_nth:
  assumes "j < length z"
  shows "softmax z ! j = exp (z ! j) / (\<Sum>j'<length z. exp (z ! j'))"
proof -
  have "sum_list (map exp z) = (\<Sum>j'<length z. exp (z ! j'))"
    by (simp add: sum_list_sum_nth atLeast0LessThan)
  with assms show ?thesis by (simp add: softmax_def)
qed

lemma p_y_given_x_spec:
  assumes X: "\<forall>r\<in>set X. length r = length (W c)"
    and bl: "length (b c) = n_cols (W c)"
  shows "\<exists>P. p_y_given_x c X = Inr P \<and> length P = length X
     \<and> (\<forall>i<length X. length (P ! i) = length (b c)
           \<and> (\<forall>j<length (b c). P ! i ! j = spec_probs X (W c) (b c) i j))"
proof -
  from logits_spec [OF X bl] obtain Z where lin: "logits c X = Inr Z"
    and lz: "length Z = length X"
    and z: "\<And>i. i < length X \<Longrightarrow> length (Z ! i) = length (b c)"
       "\<And>i j. i < length X \<Longrightarrow> j < length (b c) \<Longrightarrow> Z ! i ! j = spec_logits X (W c) (b c) i j"
    by blast
  have p: "p_y_given_x c X = Inr (map softmax Z)"
    using lin by (simp add: p_y_given_x_def)
  have "length (map softmax Z ! i) = length (b c)
      \<and> (\<forall>j<length (b c). map softmax Z ! i ! j = spec_probs X (W c) (b c) i j)"
    if i: "i < length X" for i
  proof -
    have "softmax (Z ! i) ! j = spec_probs X (W c) (b c) i j" if j: "j < length (b c)" for j
    proof -
      have "(\<Sum>j'<length (b c). exp (Z ! i ! j'))
          = (\<Sum>j'<length (b c). exp (spec_logits X (W c) (b c) i j'))"
        using z(2) [OF i] by (intro sum.cong) simp_all
      then show ?thesis
        using softmax_nth [of j "Z ! i"] z(1) [OF i] z(2) [OF i j] j
        by (simp add: spec_probs_def)
    qed
    with i lz z(1) [OF i] show ?thesis by (simp add: softmax_def)
  qed
  with p lz show ?thesis by auto
qed


lemma argmax_from_spec:
  assumes "best < length ps" and "ps ! best = v"
    and "\<forall>j<length ps. ps ! j \<le> v" and "\<forall>j<best. ps ! j < v"
  shows "spec_argmax (\<lambda>j. (ps @ us) ! j) (length (ps @ us)) (argmax_from best v (length ps) us)"
  using assms
proof (induction us arbitrary: best v ps)
  case Nil
  then show ?case by (simp add: spec_argmax_def)
next
  case (Cons u us)
  show ?case
  proof (cases "v < u")
    case True
    have "spec_argmax (\<lambda>j. ((ps @ [u]) @ us) ! j) (length ((ps @ [u]) @ us))
        (argmax_from (length ps) u (length (ps @ [u])) us)"
    proof (rule Cons.IH)
      show "length ps < length (ps @ [u])" by simp
      show "(ps @ [u]) ! length ps = u" by simp
      show "\<forall>j<length (ps @ [u]). (ps @ [u]) ! j \<le> u"
        using Cons.prems(3) True by (auto simp: nth_append less_Suc_eq intro: order_trans less_imp_le)
      show "\<forall>j<length ps. (ps @ [u]) ! j < u"
        using Cons.prems(3) True by (auto simp: nth_append intro: le_less_trans)
    qed
    with True show ?thesis by simp
  next
    case False
    have "spec_argmax (\<lambda>j. ((ps @ [u]) @ us) ! j) (length ((ps @ [u]) @ us))
        (argmax_from best v (length (ps @ [u])) us)"
    proof (rule Cons.IH)
      show "best < length (ps @ [u])" using Cons.prems(1) by simp
      show "(ps @ [u]) ! best = v" using Cons.prems(1,2) by (simp add: nth_append)
      show "\<forall>j<length (ps @ [u]). (ps @ [u]) ! j \<le> v"
        using Cons.prems(3) False by (auto simp: nth_append less_Suc_eq)
      show "\<forall>j<best. (ps @ [u]) ! j < v"
        using Cons.prems(1,4) by (auto simp: nth_append)
    qed
    with False show ?thesis by simp
  qed
qed

lemma argmax_spec:
  assumes "r \<noteq> []"
  shows "spec_argmax (\<lambda>j. r ! j) (length r) (argmax r)"
proof -
  from assms obtain v vs where r: "r = v # vs" by (cases r) auto
  have "spec_argmax (\<lambda>j. ([v] @ vs) ! j) (length ([v] @ vs)) (argmax_from 0 v (length [v]) vs)"
    by (rule argmax_from_spec) simp_all
  then show ?thesis by (simp add: r argmax_def)
qed

lemma spec_argmax_cong:
  assumes "spec_argmax f n j" and "\<forall>k<n. f k = g k"
  shows "spec_argmax g n j"
  using assms by (auto simp: spec_argmax_def)

lemma pick_spec:
  assumes "n \<le> length m" and "length ys = n - k"
    and "\<forall>i<length m. \<forall>l\<in>set ys. 0 \<le> l \<and> l < int (length (m ! i))"
  shows "pick m (map int [k..<n]) ys = Inr (map (\<lambda>i. m ! i ! nat (ys ! (i - k))) [k..<n])"
  using assms
proof (induction ys arbitrary: k)
  case Nil
  then have "[k..<n] = []" by simp
  then show ?case by simp
next
  case (Cons l ys)
  then have kn: "k < n" by simp
  then have up: "[k..<n] = k # [Suc k..<n]" by (simp add: upt_conv_Cons)
  from kn Cons.prems(1) have km: "k < length m" by simp
  with Cons.prems(3) have l: "0 \<le> l" "l < int (length (m ! k))" by simp_all
  have row: "py_index m (int k) = Inr (m ! k)"
    using km by (simp add: py_index_def)
  have ent: "label_entry (m ! k) l = Inr (m ! k ! nat l)"
    using l by (simp add: label_entry_def)
  have rest: "pick m (map int [Suc k..<n]) ys
      = Inr (map (\<lambda>i. m ! i ! nat (ys ! (i - Suc k))) [Suc k..<n])"
    using Cons.prems by (intro Cons.IH) simp_all
  have "map (\<lambda>i. m ! i ! nat ((l # ys) ! (i - k))) [Suc k..<n]
      = map (\<lambda>i. m ! i ! nat (ys ! (i - Suc k))) [Suc k..<n]"
    by (intro map_cong) (auto simp: Suc_diff_le)
  then show ?case
    by (simp add: up row ent rest)
qed

lemma sum_list_neq_card:
  assumes "length ps = length ys"
  shows "sum_list (map2 neq ps ys) = real (card {i. i < length ps \<and> ps ! i \<noteq> ys ! i})"
proof -
  have "sum_list (map2 neq ps ys) = (\<Sum>k<length ps. neq (ps ! k) (ys ! k))"
    using assms by (rule sum_list_map2)
  also have "\<dots> = (\<Sum>k\<in>{..<length ps}. if ps ! k \<noteq> ys ! k then 1 else 0)"
    by (simp add: neq_def)
  also have "\<dots> = (\<Sum>k\<in>{k \<in> {..<length ps}. ps ! k \<noteq> ys ! k}. 1)"
    by (rule sum.inter_filter [symmetric]) simp
  also have "\<dots> = real (card {k \<in> {..<length ps}. ps ! k \<noteq> ys ! k})"
    by simp
  also have "{k \<in> {..<length ps}. ps ! k \<noteq> ys ! k} = {i. i < length ps \<and> ps ! i \<noteq> ys ! i}"
    by auto
  finally show ?thesis .
qed


text \<open>
  C5: for a batch \<open>X\<close> of width 784, parameters \<open>W\<close> (784 by 10) and \<open>b\<close> (10) and one
  label in 0..9 per row, the class computes what the specification says: the
  probabilities are the row-wise softmax of \<open>X \<cdot> W + b\<close>, the prediction of a row is the
  argmax of its probabilities, \<^verbatim>\<open>negative_log_likelihood\<close> is the mean over the rows of
  \<open>- ln (probs[row, label[row]])\<close> and \<^verbatim>\<open>errors\<close> is the fraction of rows whose
  prediction differs from the label. For a batch without rows both means are
  \<^verbatim>\<open>nan\<close>.
\<close>

theorem classifier_refines_spec:
  assumes X: "\<forall>r\<in>set X. length r = 784"
    and Wr: "length (W c) = 784" and Wc: "\<forall>r\<in>set (W c). length r = 10"
    and bl: "length (b c) = 10"
    and yl: "length y = length X" and yr: "\<forall>l\<in>set y. 0 \<le> l \<and> l < 10"
  shows "\<exists>P preds. p_y_given_x c X = Inr P \<and> length P = length X
      \<and> (\<forall>i<length X. length (P ! i) = 10
            \<and> (\<forall>j<10. P ! i ! j = spec_probs X (W c) (b c) i j))
      \<and> y_pred c X = Inr preds \<and> length preds = length X
      \<and> (\<forall>i<length X. 0 \<le> preds ! i
            \<and> spec_argmax (spec_probs X (W c) (b c) i) 10 (nat (preds ! i)))
      \<and> negative_log_likelihood c X y
          = Inr (if X = [] then NaN else Fin (spec_loss X (W c) (b c) y))
      \<and> errors c X y = Inr (if X = [] then NaN else Fin (spec_error_rate preds y))"
proof -
  from Wr obtain w ws where "W c = w # ws" by (cases "W c") auto
  with Wc have cols: "n_cols (W c) = 10" by (simp add: n_cols_def)
  from X Wr have X': "\<forall>r\<in>set X. length r = length (W c)" by simp
  from bl cols have bl': "length (b c) = n_cols (W c)" by simp
  from p_y_given_x_spec [OF X' bl'] obtain P where p: "p_y_given_x c X = Inr P"
    and lp: "length P = length X"
    and rows: "\<And>i. i < length X \<Longrightarrow> length (P ! i) = 10"
    and ent: "\<And>i j. i < length X \<Longrightarrow> j < 10 \<Longrightarrow> P ! i ! j = spec_probs X (W c) (b c) i j"
    unfolding bl by blast
  define preds where "preds = map (\<lambda>r. int (argmax r)) P"
  have "[] \<notin> set P"
    using rows lp by (fastforce simp: in_set_conv_nth)
  with p have yp: "y_pred c X = Inr preds"
    by (simp add: y_pred_def preds_def)
  have lpr: "length preds = length X" by (simp add: preds_def lp)
  have am: "0 \<le> preds ! i \<and> spec_argmax (spec_probs X (W c) (b c) i) 10 (nat (preds ! i))"
    if i: "i < length X" for i
  proof -
    from rows [OF i] have "P ! i \<noteq> []" by auto
    from argmax_spec [OF this] rows [OF i]
    have "spec_argmax (\<lambda>j. P ! i ! j) 10 (argmax (P ! i))" by simp
    then have "spec_argmax (spec_probs X (W c) (b c) i) 10 (argmax (P ! i))"
      by (rule spec_argmax_cong) (simp add: ent [OF i])
    with i lp show ?thesis by (simp add: preds_def)
  qed
  have nll: "negative_log_likelihood c X y
      = Inr (if X = [] then NaN else Fin (spec_loss X (W c) (b c) y))"
  proof -
    have "pick (map (map ln) P) (map int [0..<length y]) y
        = Inr (map (\<lambda>i. map (map ln) P ! i ! nat (y ! (i - 0))) [0..<length y])"
    proof (rule pick_spec)
      show "length y \<le> length (map (map ln) P)" by (simp add: lp yl)
      show "length y = length y - 0" by simp
      show "\<forall>i<length (map (map ln) P). \<forall>l\<in>set y.
          0 \<le> l \<and> l < int (length (map (map ln) P ! i))"
        using yr rows lp by simp
    qed
    also have "map (\<lambda>i. map (map ln) P ! i ! nat (y ! (i - 0))) [0..<length y]
        = map (\<lambda>i. ln (spec_probs X (W c) (b c) i (nat (y ! i)))) [0..<length X]"
    proof (unfold yl, rule map_cong [OF refl])
      fix i assume "i \<in> set [0..<length X]"
      then have i: "i < length X" by simp
      with yl yr have "0 \<le> y ! i" "y ! i < 10" by simp_all
      then have "nat (y ! i) < 10" by simp
      with i lp rows [OF i] ent [OF i, of "nat (y ! i)"]
      show "map (map ln) P ! i ! nat (y ! (i - 0)) = ln (spec_probs X (W c) (b c) i (nat (y ! i)))"
        by simp
    qed
    finally have picked: "pick (map (map ln) P) (py_range (int (length y))) y
        = Inr (map (\<lambda>i. ln (spec_probs X (W c) (b c) i (nat (y ! i)))) [0..<length X])"
      by (simp add: py_range_def)
    have "- (sum_list (map (\<lambda>i. ln (spec_probs X (W c) (b c) i (nat (y ! i)))) [0..<length X])
          / real (length X)) = spec_loss X (W c) (b c) y"
      by (simp add: spec_loss_def sum_list_nth_sum sum_negf)
    then show ?thesis
      by (simp add: negative_log_likelihood_def p picked numpy_mean_def)
  qed
  have err: "errors c X y = Inr (if X = [] then NaN else Fin (spec_error_rate preds y))"
  proof -
    have "sum_list (map2 neq preds y) / real (length X) = spec_error_rate preds y"
      using sum_list_neq_card [of preds y] lpr yl by (simp add: spec_error_rate_def)
    then show ?thesis
      using lpr yl by (auto simp: errors_def yp numpy_mean_def)
  qed
  from p lp rows ent yp lpr am nll err show ?thesis by blast
qed

theorem classifier_refines_spec_witness:
  "y_pred (LogisticRegression_init (28 * 28) 10) [replicate 784 (1 / 2), replicate 784 1]
     = Inr [0, 0]
   \<and> negative_log_likelihood (LogisticRegression_init (28 * 28) 10)
        [replicate 784 (1 / 2), replicate 784 1] [3, 0] = Inr (Fin (ln 10))
   \<and> errors (LogisticRegression_init (28 * 28) 10)
        [replicate 784 (1 / 2), replicate 784 1] [3, 0] = Inr (Fin (1 / 2))"
proof -
  define c where "c = LogisticRegression_init (28 * 28) 10"
  define X :: matrix where "X = [replicate 784 (1 / 2), replicate 784 1]"
  define y :: "int list" where "y = [3, 0]"
  have h: "\<forall>r\<in>set X. length r = 784" "length (W c) = 784" "\<forall>r\<in>set (W c). length r = 10"
    "length (b c) = 10" "length y = length X" "\<forall>l\<in>set y. 0 \<le> l \<and> l < 10"
    by (simp_all add: X_def c_def y_def LogisticRegression_init_def)
  from classifier_refines_spec [OF h] obtain P preds where
    p: "p_y_given_x c X = Inr P"
    and ent: "\<forall>i<length X. \<forall>j<10. P ! i ! j = spec_probs X (W c) (b c) i j"
    and yp: "y_pred c X = Inr preds"
    and nll: "negative_log_likelihood c X y = Inr (if X = [] then NaN else Fin (spec_loss X (W c) (b c) y))"
    and err: "errors c X y = Inr (if X = [] then NaN else Fin (spec_error_rate preds y))"
    by blast
  have "\<forall>r\<in>set X. length r = 28 * 28" using h(1) by simp
  from zero_model [OF _ _ this, of 10] p yp
  have P: "P = [replicate 10 (1 / 10), replicate 10 (1 / 10)]" and preds: "preds = [0, 0]"
    by (simp_all add: c_def X_def numeral_2_eq_2)
  have "P ! 0 ! 3 = spec_probs X (W c) (b c) 0 3" "P ! 1 ! 0 = spec_probs X (W c) (b c) 1 0"
    using ent [rule_format, of 0 3] ent [rule_format, of 1 0] by (simp_all add: X_def)
  then have pr: "spec_probs X (W c) (b c) 0 3 = 1 / 10" "spec_probs X (W c) (b c) 1 0 = 1 / 10"
    by (simp_all add: P)
  have len: "length X = 2" by (simp add: X_def)
  have "spec_loss X (W c) (b c) y
      = (- ln (spec_probs X (W c) (b c) 0 3) + - ln (spec_probs X (W c) (b c) 1 0)) / 2"
    by (simp add: spec_loss_def len y_def lessThan_Suc numeral_2_eq_2)
  also have "\<dots> = (- ln (1 / 10) + - ln (1 / 10)) / 2"
    by (simp only: pr)
  also have "\<dots> = ln 10"
    by (simp add: ln_div)
  finally have "spec_loss X (W c) (b c) y = ln 10" .
  moreover have "{i. i < length preds \<and> preds ! i \<noteq> y ! i} = {0}"
    by (auto simp: preds y_def less_Suc_eq)
  then have "spec_error_rate preds y = 1 / 2"
    by (simp add: spec_error_rate_def preds)
  ultimately show ?thesis
    using nll err yp by (simp add: c_def X_def y_def preds)
qed

section \<open>Properties of \<^verbatim>\<open>predict\<close>\<close>

lemma predict_after_dump:
  "predict (pickle_dump os saved_model (Model c)) saved_model x = y_pred c x"
  by (simp add: predict_def pickle_load_def pickle_dump_def)

lemma train_step_persisted:
  assumes "train_step env i s = Inr (s', leave)" and "persisted (last (trace s'))"
  shows "\<exists>os. disk s' = pickle_dump os SAVED_MODEL (Model (params s'))"
  using assms
  by (auto simp: train_step_def validation_check_def new_best_def call_each_eq Let_def
      split: if_splits prod.splits)

text \<open>
  C9: \<^verbatim>\<open>predict\<close> on a file that holds a pickled classifier gives exactly the result of
  that classifier's \<^verbatim>\<open>y_pred\<close>, the argmax of the softmax of \<open>x \<cdot> W + b\<close>, on the same
  input, errors included; in particular, after a training step that pickled the
  classifier, \<^verbatim>\<open>predict\<close> on \<^verbatim>\<open>SAVED_MODEL\<close> agrees with the forward pass on the
  parameters of that step. \<^verbatim>\<open>predict\<close> only reads: its model has no state to return.
\<close>

theorem predict_round_trip:
  "predict (pickle_dump os saved_model (Model c)) saved_model x = y_pred c x
   \<and> (train_step env i s = Inr (s', leave) \<and> persisted (last (trace s'))
        \<longrightarrow> predict (disk s') SAVED_MODEL x = y_pred (params s') x)"
  using train_step_persisted [of env i s s' leave]
  by (auto simp: predict_after_dump)

theorem predict_round_trip_witness:
  "\<exists>s'. train_step checkpoint_env 1999 checkpoint_fresh = Inr (s', False)
     \<and> persisted (last (trace s'))
     \<and> params s' = LogisticRegression_init (28 * 28) 10
     \<and> predict (disk s') SAVED_MODEL [replicate 784 (1 / 2), replicate 784 1] = Inr [0, 0]"
proof -
  obtain s' where run: "train_step checkpoint_env 1999 checkpoint_fresh = Inr (s', False)"
    and saved: "persisted (last (trace s'))"
    and par: "params s' = LogisticRegression_init (28 * 28) 10"
    by (simp add: train_step_def checkpoint_env_def checkpoint_state_def checkpoint_fresh_def validation_check_def
        new_best_def call_each_eq Let_def py_range_two py_range_one numpy_mean_def
        improvement_thresh_def patience_mult_def)
  have "y_pred (LogisticRegression_init (28 * 28) 10) [replicate 784 (1 / 2), replicate 784 1]
      = Inr [0, 0]"
    using zero_model(2) [of "28 * 28" 10 "[replicate 784 (1 / 2), replicate 784 1]"]
    by (simp add: numeral_2_eq_2)
  with predict_round_trip [of _ _ _ "[replicate 784 (1 / 2), replicate 784 1]" checkpoint_env 1999
      checkpoint_fresh s' False] run saved par
  show ?thesis by auto
qed

end
